theory Spec2Isabelle
  imports Complex_Main "HOL-Library.AList" "HOL-Library.Multiset" "HOL-Library.Sublist"
begin

section \<open>The spectrogram generator notebook, embedded\<close>

text \<open>
  The program is the notebook \<^verbatim>\<open>gen_spectrograms.ipynb\<close>: a function that turns one
  recording into a spectrogram image (\<^verbatim>\<open>save_spectrogram_image\<close>), a recursive search for
  \<^verbatim>\<open>.wav\<close> files (\<^verbatim>\<open>get_all_wavfiles\<close>), a reset of an output directory
  (\<^verbatim>\<open>create_storage_for_images\<close>), the loop that renders every clip, and the split of the
  rendered images into a training and a testing set
  (\<^verbatim>\<open>generate_training_and_testing_datasets\<close>).

  Exceptions are values: a function that can raise returns \<open>error + 'a\<close>, with \<open>Inl\<close> the
  exception. The notebook raises nothing itself; every exception below is one that Python or
  a library call of the notebook raises.
\<close>

datatype error =
    ZeroDivisionError
  | OverflowError
  | ValueError
  | IndexError
  | FileNotFoundError
  | FileExistsError
  | NotADirectoryError
  | LibraryError string

subsection \<open>Python numbers\<close>

text \<open>
  A Python \<^verbatim>\<open>float\<close> is an IEEE 754 double. A finite double is modelled by the real
  number it denotes. \<open>fl\<close> rounds a real number to the nearest number with a significand of
  53 bits and an exponent of at least \<open>-1022\<close>, ties to the even significand. Below
  \<open>2 powi - 1022\<close> in magnitude the numbers are the subnormal ones, the multiples of
  \<open>2 powi - 1074\<close>, so a quotient or a product that is small enough underflows to zero.
  \<open>round_half_even\<close> is rounding to the nearest integer, ties to the even one; it is what
  \<^verbatim>\<open>np.round\<close> does, and what \<open>fl\<close> does to the scaled significand.
\<close>

definition round_half_even :: "real \<Rightarrow> int" where
  "round_half_even x =
     (let f = \<lfloor>x\<rfloor>; d = x - of_int f
      in if d < 1/2 then f else if 1/2 < d then f + 1 else if even f then f else f + 1)"

definition fl :: "real \<Rightarrow> real" where
  "fl x = (if x = 0 then 0
           else let e = max \<lfloor>log 2 \<bar>x\<bar>\<rfloor> (- 1022); u = 2 powi (e - 52)
                in of_int (round_half_even (x / u)) * u)"

text \<open>
  The value of an operation on floats is a finite double or an infinity: the exact result
  overflows when its rounding reaches \<open>2 ^ 1024\<close>. The sign of an infinity is not kept,
  because the program hands an infinity on to \<^verbatim>\<open>int\<close> and to \<^verbatim>\<open>plt.figure\<close> only,
  which refuse both.
\<close>

datatype pyfloat = Float real | FloatInf

definition to_double :: "real \<Rightarrow> pyfloat" where
  "to_double x = (if 2 ^ 1024 \<le> \<bar>fl x\<bar> then FloatInf else Float (fl x))"

text \<open>
  The arguments of the program are Python numbers, ints or finite floats, each held by the
  real number it denotes. Where an int meets a float, Python first makes a float of it,
  \<open>py_float\<close>: a float is left as it is, an int is rounded, and an int too large for a
  double raises \<^verbatim>\<open>OverflowError\<close>.
\<close>

definition py_float :: "real \<Rightarrow> error + real" where
  "py_float x = (case to_double x of Float y \<Rightarrow> Inr y | FloatInf \<Rightarrow> Inl OverflowError)"

text \<open>
  Python's \<^verbatim>\<open>a / b\<close>, \<^verbatim>\<open>a - b\<close> and \<^verbatim>\<open>a * b\<close> on floats. A division by zero raises; a
  quotient or product that overflows is an infinity. The difference is only ever taken of
  1 and a float, which cannot overflow.
\<close>

definition fdiv :: "real \<Rightarrow> real \<Rightarrow> error + pyfloat" where
  "fdiv a b = (if b = 0 then Inl ZeroDivisionError else Inr (to_double (a / b)))"

definition fsub :: "real \<Rightarrow> real \<Rightarrow> real" where
  "fsub a b = fl (a - b)"

definition fmul :: "real \<Rightarrow> real \<Rightarrow> pyfloat" where
  "fmul a b = to_double (a * b)"

text \<open>
  \<^verbatim>\<open>a / n\<close> for a number \<open>a\<close> and an int \<open>n\<close> below \<open>2 ^ 53\<close> in magnitude: the
  quotient, rounded once. Only the quotient of two ints can be too large for a double, and
  that division raises \<^verbatim>\<open>OverflowError\<close>.
  \<^verbatim>\<open>x / f\<close> for a number \<open>x\<close> and a float \<open>f\<close>: a float is made of \<open>x\<close>, then the floats
  are divided.
\<close>

definition truediv_int :: "real \<Rightarrow> int \<Rightarrow> error + real" where
  "truediv_int a n =
     (if n = 0 then Inl ZeroDivisionError
      else case to_double (a / of_int n) of
             Float q \<Rightarrow> Inr q
           | FloatInf \<Rightarrow> Inl OverflowError)"

definition truediv_float :: "real \<Rightarrow> real \<Rightarrow> error + pyfloat" where
  "truediv_float x f = (case py_float x of Inl e \<Rightarrow> Inl e | Inr a \<Rightarrow> fdiv a f)"

text \<open>
  \<^verbatim>\<open>int(x)\<close> truncates a finite float towards zero and raises \<^verbatim>\<open>OverflowError\<close> on an
  infinity.
\<close>

definition trunc :: "real \<Rightarrow> int" where
  "trunc y = (if y < 0 then \<lceil>y\<rceil> else \<lfloor>y\<rfloor>)"

definition py_int :: "pyfloat \<Rightarrow> error + int" where
  "py_int x = (case x of Float y \<Rightarrow> Inr (trunc y) | FloatInf \<Rightarrow> Inl OverflowError)"

text \<open>
  \<^verbatim>\<open>np.round(x)\<close>: the nearest integer, ties to even, still a float; an infinity stays
  one.
\<close>

definition np_round :: "pyfloat \<Rightarrow> pyfloat" where
  "np_round x = (case x of Float y \<Rightarrow> Float (of_int (round_half_even y)) | FloatInf \<Rightarrow> FloatInf)"

subsection \<open>Strings and paths\<close>

text \<open>\<^verbatim>\<open>s.endswith(suf)\<close>, and \<^verbatim>\<open>os.path.join(a, b)\<close> of \<^verbatim>\<open>posixpath\<close>.\<close>

definition endswith :: "string \<Rightarrow> string \<Rightarrow> bool" where
  "endswith s suf = (length suf \<le> length s \<and> drop (length s - length suf) s = suf)"

definition path_join :: "string \<Rightarrow> string \<Rightarrow> string" where
  "path_join a b =
     (if take 1 b = ''/'' then b
      else if a = [] \<or> endswith a ''/'' then a @ b
      else a @ ''/'' @ b)"

subsection \<open>Directory trees: \<^verbatim>\<open>os.walk\<close> and \<^verbatim>\<open>get_all_wavfiles\<close>\<close>

text \<open>
  What is found at a path: a regular file, or a directory with its entries by name, in the
  order in which the file system lists them.
\<close>

datatype node = File | Dir "(string \<times> node) list"

fun is_dir :: "node \<Rightarrow> bool" where
  "is_dir File = False"
| "is_dir (Dir es) = True"

text \<open>
  \<^verbatim>\<open>os.walk(top)\<close>, top down: for a directory the triple of its path, the names of its
  subdirectories and the names of its other entries, then the walk of each subdirectory at
  \<^verbatim>\<open>os.path.join(top, name)\<close>. A path that is no directory yields nothing.
  The generator is finite; it is modelled by the list of what it yields.
\<close>

fun walk :: "string \<Rightarrow> node \<Rightarrow> (string \<times> string list \<times> string list) list"
  and walk_dirs :: "string \<Rightarrow> (string \<times> node) list \<Rightarrow> (string \<times> string list \<times> string list) list"
where
  "walk top_path File = []"
| "walk top_path (Dir es) =
     (top_path, map fst (filter (\<lambda>e. is_dir (snd e)) es),
                map fst (filter (\<lambda>e. \<not> is_dir (snd e)) es))
       # walk_dirs top_path es"
| "walk_dirs top_path [] = []"
| "walk_dirs top_path ((n, c) # es) =
     (if is_dir c then walk (path_join top_path n) c else []) @ walk_dirs top_path es"

text \<open>
  \<^verbatim>\<open>
  def get_all_wavfiles(root_path):
      for root, dirs, files in os.walk(root_path):
          for file_name in files:
              path = os.path.join(root, file_name)
              if path.endswith(".wav"):
                  yield(path)
  \<close>
  The inner loop is \<open>wavfiles_in\<close>, the outer loop \<open>yield_wavfiles\<close>.
\<close>

fun wavfiles_in :: "string \<Rightarrow> string list \<Rightarrow> string list" where
  "wavfiles_in root_dir [] = []"
| "wavfiles_in root_dir (file_name # files) =
     (let path = path_join root_dir file_name
      in if endswith path ''.wav'' then path # wavfiles_in root_dir files
         else wavfiles_in root_dir files)"

fun yield_wavfiles :: "(string \<times> string list \<times> string list) list \<Rightarrow> string list" where
  "yield_wavfiles [] = []"
| "yield_wavfiles ((root_dir, dirs, files) # rest) =
     wavfiles_in root_dir files @ yield_wavfiles rest"

definition get_all_wavfiles :: "string \<Rightarrow> node \<Rightarrow> string list" where
  "get_all_wavfiles root_path tree = yield_wavfiles (walk root_path tree)"

text \<open>
  The specification's side of the search: \<open>file_under top_path tree p name\<close> says that the
  regular file called \<open>name\<close> lies in \<open>tree\<close>, at any depth, and that \<open>p\<close> is its path when
  the tree stands at \<open>top_path\<close>. Only membership among the entries is used, never their
  order. \<open>wav_paths\<close> are the paths of the files whose name ends in \<^verbatim>\<open>.wav\<close>.
\<close>

inductive file_under :: "string \<Rightarrow> node \<Rightarrow> string \<Rightarrow> string \<Rightarrow> bool" where
  here: "(n, File) \<in> set es \<Longrightarrow> file_under top_path (Dir es) (path_join top_path n) n"
| below: "(n, Dir es') \<in> set es \<Longrightarrow> file_under (path_join top_path n) (Dir es') p m
      \<Longrightarrow> file_under top_path (Dir es) p m"

definition wav_paths :: "string \<Rightarrow> node \<Rightarrow> string set" where
  "wav_paths top_path tree =
     {p. \<exists>name. file_under top_path tree p name \<and> endswith name ''.wav''}"

text \<open>
  Two trees that differ only in the order in which directories list their entries: what a
  different traversal order of the same files looks like.
\<close>

inductive reordered :: "node \<Rightarrow> node \<Rightarrow> bool" where
  same_file: "reordered File File"
| same_dir: "mset (map fst es) = mset (map fst es') \<Longrightarrow>
        (\<And>n c. (n, c) \<in> set es \<Longrightarrow> \<exists>c'. (n, c') \<in> set es' \<and> reordered c c') \<Longrightarrow>
        (\<And>n c'. (n, c') \<in> set es' \<Longrightarrow> \<exists>c. (n, c) \<in> set es \<and> reordered c c') \<Longrightarrow>
        reordered (Dir es) (Dir es')"

subsection \<open>\<^verbatim>\<open>create_storage_for_images\<close>\<close>

text \<open>
  The state of the one path the function is given: nothing there (\<open>None\<close>), a regular file,
  or a directory with its contents.
  \<^verbatim>\<open>
  def create_storage_for_images(directory_to_store_images):
      if os.path.exists(directory_to_store_images):
          shutil.rmtree(directory_to_store_images)
      os.makedirs(directory_to_store_images)
  \<close>
  \<^verbatim>\<open>shutil.rmtree\<close> removes a directory with everything in it and refuses a regular file;
  \<^verbatim>\<open>os.makedirs\<close> creates an empty directory and refuses a path that exists.
\<close>

definition path_exists :: "node option \<Rightarrow> bool" where
  "path_exists s = (s \<noteq> None)"

fun rmtree :: "node option \<Rightarrow> error + node option" where
  "rmtree None = Inl FileNotFoundError"
| "rmtree (Some File) = Inl NotADirectoryError"
| "rmtree (Some (Dir es)) = Inr None"

fun makedirs :: "node option \<Rightarrow> error + node option" where
  "makedirs None = Inr (Some (Dir []))"
| "makedirs (Some c) = Inl FileExistsError"

definition create_storage_for_images :: "node option \<Rightarrow> error + node option" where
  "create_storage_for_images directory_to_store_images =
     (if path_exists directory_to_store_images
      then (case rmtree directory_to_store_images of
              Inl e \<Rightarrow> Inl e
            | Inr removed \<Rightarrow> makedirs removed)
      else makedirs directory_to_store_images)"

subsection \<open>The transform of \<^verbatim>\<open>save_spectrogram_image\<close>\<close>

text \<open>
  \<^verbatim>\<open>
  f_step = sampling_rate / n_fft
  min_bin = int(min_freq / f_step)
  max_bin = int(max_freq / f_step)
  \<close>
  \<open>n_fft\<close> is an int, the other arguments are numbers, and \<open>f_step\<close> is a float. Each
  division raises \<^verbatim>\<open>ZeroDivisionError\<close> on a zero divisor, also when \<open>f_step\<close> has
  underflowed to zero, and \<^verbatim>\<open>int\<close> raises \<^verbatim>\<open>OverflowError\<close> on a quotient that has
  overflowed.
\<close>

definition freq_bins :: "real \<Rightarrow> int \<Rightarrow> real \<Rightarrow> real \<Rightarrow> error + (int \<times> int)" where
  "freq_bins sampling_rate n_fft min_freq max_freq =
     (case truediv_int sampling_rate n_fft of
        Inl e \<Rightarrow> Inl e
      | Inr f_step \<Rightarrow>
          (case truediv_float min_freq f_step of
             Inl e \<Rightarrow> Inl e
           | Inr q_min \<Rightarrow>
               (case py_int q_min of
                  Inl e \<Rightarrow> Inl e
                | Inr min_bin \<Rightarrow>
                    (case truediv_float max_freq f_step of
                       Inl e \<Rightarrow> Inl e
                     | Inr q_max \<Rightarrow>
                         (case py_int q_max of
                            Inl e \<Rightarrow> Inl e
                          | Inr max_bin \<Rightarrow> Inr (min_bin, max_bin))))))"

text \<open>
  \<^verbatim>\<open>Y[min_bin:max_bin, :]\<close> on a matrix held as the list of its rows (one row per frequency
  bin). A slice never raises: a negative bound counts from the end, and both bounds are
  clamped to the number of rows.
\<close>

definition slice_index :: "nat \<Rightarrow> int \<Rightarrow> nat" where
  "slice_index n i = (if i < 0 then nat (max 0 (int n + i)) else min n (nat i))"

definition py_slice :: "int \<Rightarrow> int \<Rightarrow> 'a list \<Rightarrow> 'a list" where
  "py_slice start stop xs =
     (let lo = slice_index (length xs) start; hi = slice_index (length xs) stop
      in take (hi - lo) (drop lo xs))"

text \<open>
  \<^verbatim>\<open>librosa.amplitude_to_db(abs(Y), ref=ref)\<close>. The decibel values are the library's
  (\<open>db\<close>, a parameter). What is modelled is the one failure that the crop can cause: on a
  matrix with no element, the reduction that finds the reference (\<^verbatim>\<open>np.max\<close>) and the
  one that finds the floor (\<^verbatim>\<open>log_spec.max()\<close>) raise \<^verbatim>\<open>ValueError\<close>.
\<close>

definition amplitude_to_db ::
  "(real list list \<Rightarrow> 'r \<Rightarrow> real list list) \<Rightarrow> real list list \<Rightarrow> 'r \<Rightarrow> error + real list list"
where
  "amplitude_to_db db S ref = (if concat S = [] then Inl ValueError else Inr (db S ref))"

text \<open>
  Lines 129 to 141 of the notebook, the part of \<^verbatim>\<open>save_spectrogram_image\<close> before the
  plot. \<^verbatim>\<open>librosa.load\<close> and \<^verbatim>\<open>librosa.stft\<close> are parameters; either may fail.
  \<^verbatim>\<open>
  y, sr = librosa.load(input_path, sr=sampling_rate)
  Y = librosa.stft(y, n_fft=n_fft)
  Y = Y[ min_bin:max_bin, :]
  Ydb = librosa.amplitude_to_db(abs(Y), ref=ref)
  \<close>
\<close>

definition spectrogram_transform ::
  "(string \<Rightarrow> real \<Rightarrow> error + real list) \<Rightarrow> (real list \<Rightarrow> int \<Rightarrow> error + complex list list) \<Rightarrow>
   (real list list \<Rightarrow> 'r \<Rightarrow> real list list) \<Rightarrow>
   string \<Rightarrow> real \<Rightarrow> int \<Rightarrow> real \<Rightarrow> real \<Rightarrow> 'r \<Rightarrow> error + real list list"
where
  "spectrogram_transform load stft db input_path sampling_rate n_fft max_freq min_freq ref =
     (case freq_bins sampling_rate n_fft min_freq max_freq of
        Inl e \<Rightarrow> Inl e
      | Inr (min_bin, max_bin) \<Rightarrow>
          (case load input_path sampling_rate of
             Inl e \<Rightarrow> Inl e
           | Inr y \<Rightarrow>
               (case stft y n_fft of
                  Inl e \<Rightarrow> Inl e
                | Inr Y \<Rightarrow>
                    amplitude_to_db db (map (map cmod) (py_slice min_bin max_bin Y)) ref)))"

text \<open>
  The specification's side of the crop: the rows of \<open>Y\<close> whose bin index lies in the
  half-open range from \<open>lo\<close> to \<open>hi\<close>, in order.
\<close>

definition half_open_bins :: "int \<Rightarrow> int \<Rightarrow> 'a list \<Rightarrow> 'a list" where
  "half_open_bins lo hi Y =
     map (\<lambda>i. Y ! i) (filter (\<lambda>i. lo \<le> int i \<and> int i < hi) [0..<length Y])"

subsection \<open>The image of \<^verbatim>\<open>save_spectrogram_image\<close>\<close>

text \<open>
  Lines 143 to 163 of the notebook make the figure and save it:
  \<^verbatim>\<open>
  fig = plt.figure(
      frameon=False, figsize=(img_size[0] / dpi, img_size[1] / dpi), dpi=dpi
  )
  ...
  fig.savefig(save_path)
  \<close>
  This part is reached when the transform has succeeded. \<open>img_size\<close> is a pair of pixel
  counts, ints below \<open>2 ^ 53\<close>, and \<open>dpi\<close> a number. The notebook's part is the size of
  the figure in inches, \<open>figsize\<close>. The figure and the image file are matplotlib's:
  \<open>canvas\<close>, a parameter, stands for \<^verbatim>\<open>plt.figure\<close> with that size and density followed
  by \<^verbatim>\<open>savefig\<close> at the density of the figure, and gives the pixel width and height of
  the image it writes. \<^verbatim>\<open>plt.figure\<close> refuses a size that is not finite with
  \<^verbatim>\<open>ValueError\<close>.
\<close>

definition figsize :: "nat \<times> nat \<Rightarrow> real \<Rightarrow> error + pyfloat \<times> pyfloat" where
  "figsize img_size dpi =
     (case fdiv (real (fst img_size)) dpi of
        Inl e \<Rightarrow> Inl e
      | Inr width \<Rightarrow>
          (case fdiv (real (snd img_size)) dpi of
             Inl e \<Rightarrow> Inl e
           | Inr height \<Rightarrow> Inr (width, height)))"

definition saved_image_size ::
  "(real \<times> real \<Rightarrow> real \<Rightarrow> error + int \<times> int) \<Rightarrow> nat \<times> nat \<Rightarrow> real \<Rightarrow> error + int \<times> int"
where
  "saved_image_size canvas img_size dpi =
     (case figsize img_size dpi of
        Inl e \<Rightarrow> Inl e
      | Inr (Float width, Float height) \<Rightarrow> canvas (width, height) dpi
      | Inr _ \<Rightarrow> Inl ValueError)"

text \<open>
  What matplotlib's raster canvas does with a figure of \<open>width\<close> by \<open>height\<close> inches at
  \<open>dpi\<close> dots per inch: the extent of the figure in dots is the product of the floats, and
  the image has \<^verbatim>\<open>int(width * dpi)\<close> by \<^verbatim>\<open>int(height * dpi)\<close> pixels. A canvas is
  \<open>truncating\<close> when every image it writes has that size; when it writes none is left open.
\<close>

definition truncating :: "(real \<times> real \<Rightarrow> real \<Rightarrow> error + int \<times> int) \<Rightarrow> bool" where
  "truncating canvas =
     (\<forall>width height dpi pw ph.
        canvas (width, height) dpi = Inr (pw, ph) \<longrightarrow>
        py_int (fmul width dpi) = Inr pw \<and> py_int (fmul height dpi) = Inr ph)"

subsection \<open>The render loop\<close>

text \<open>
  The inner loop of the cell that renders every clip, for one species:
  \<^verbatim>\<open>
  for clip_path in get_all_wavfiles(curr_input_dir):
      if not clip_path.endswith(".wav"):
          continue
      save_spectrogram_image(clip_path, curr_output_dir, count, ...)
      count += 1
  \<close>
  \<open>save\<close> stands for the call of \<^verbatim>\<open>save_spectrogram_image\<close>; an exception of it ends the
  loop. The state is the counter and, as a trace of the run, the paths the calls returned and
  the clips on which \<^verbatim>\<open>continue\<close> ran.
\<close>

record render_state =
  count :: nat
  saved :: "string list"
  skipped :: "string list"

fun render_clips ::
  "(string \<Rightarrow> string \<Rightarrow> nat \<Rightarrow> error + string) \<Rightarrow> string \<Rightarrow> string list \<Rightarrow> render_state \<Rightarrow>
   error + render_state"
where
  "render_clips save curr_output_dir [] st = Inr st"
| "render_clips save curr_output_dir (clip_path # clips) st =
     (if \<not> endswith clip_path ''.wav''
      then render_clips save curr_output_dir clips (st\<lparr>skipped := skipped st @ [clip_path]\<rparr>)
      else (case save clip_path curr_output_dir (count st) of
              Inl e \<Rightarrow> Inl e
            | Inr save_path \<Rightarrow>
                render_clips save curr_output_dir clips
                  (st\<lparr>count := count st + 1, saved := saved st @ [save_path]\<rparr>)))"

subsection \<open>\<^verbatim>\<open>generate_training_and_testing_datasets\<close>\<close>

text \<open>
  The two roots the function works on: under \<^verbatim>\<open>path_to_data\<close> one directory per class,
  as \<^verbatim>\<open>next(os.walk(path_to_data))\<close> lists them, and under \<^verbatim>\<open>path_to_test_data\<close> the
  directories that exist there. A directory is held by its name with the names of its
  entries, as \<^verbatim>\<open>os.listdir\<close> gives them. The two roots are different places.
\<close>

record split_fs =
  data_dirs :: "(string \<times> string list) list"
  test_dirs :: "(string \<times> string list) list"

definition get_files_from_folder :: "(string \<times> string list) list \<Rightarrow> string \<Rightarrow> error + string list" where
  "get_files_from_folder tree d =
     (case map_of tree d of None \<Rightarrow> Inl FileNotFoundError | Some files \<Rightarrow> Inr files)"

text \<open>
  The first loop: \<^verbatim>\<open>counter_per_species[i] = len(files)\<close>, a store into a float array.
\<close>

fun count_files :: "(string \<times> string list) list \<Rightarrow> string list \<Rightarrow> error + real list" where
  "count_files tree [] = Inr []"
| "count_files tree (d # ds) =
     (case get_files_from_folder tree d of
        Inl e \<Rightarrow> Inl e
      | Inr files \<Rightarrow>
          (case count_files tree ds of
             Inl e \<Rightarrow> Inl e
           | Inr counter \<Rightarrow> Inr (fl (real (length files)) # counter)))"

text \<open>
  \<^verbatim>\<open>shutil.move(src, dst)\<close> of the entry \<open>file_name\<close> of class \<open>d\<close>: the entry leaves the
  class's data directory and is in its test directory afterwards; an entry of that name
  already there is replaced.
\<close>

definition shutil_move :: "string \<Rightarrow> string \<Rightarrow> split_fs \<Rightarrow> error + split_fs" where
  "shutil_move d file_name fs =
     (case map_of (data_dirs fs) d of
        None \<Rightarrow> Inl FileNotFoundError
      | Some src \<Rightarrow>
          (case map_of (test_dirs fs) d of
             None \<Rightarrow> Inl FileNotFoundError
           | Some dst \<Rightarrow>
               if file_name \<in> set src
               then Inr (fs\<lparr>data_dirs := AList.update d (removeAll file_name src) (data_dirs fs),
                           test_dirs := AList.update d (List.insert file_name dst) (test_dirs fs)\<rparr>)
               else Inl FileNotFoundError))"

text \<open>
  \<^verbatim>\<open>
  for j in range(int(test_counter[i])):
      dst = os.path.join(path_to_save, files[j])
      src = os.path.join(path_to_original, files[j])
      shutil.move(src, dst)
  \<close>
  \<^verbatim>\<open>files[j]\<close> raises \<^verbatim>\<open>IndexError\<close> beyond the end of the array.
\<close>

fun move_files :: "string \<Rightarrow> string list \<Rightarrow> nat list \<Rightarrow> split_fs \<Rightarrow> error + split_fs" where
  "move_files d files [] fs = Inr fs"
| "move_files d files (j # js) fs =
     (if j < length files
      then (case shutil_move d (files ! j) fs of
              Inl e \<Rightarrow> Inl e
            | Inr fs' \<Rightarrow> move_files d files js fs')
      else Inl IndexError)"

text \<open>
  The body of the second loop for class \<open>d\<close> with its entry \<open>tc\<close> of \<^verbatim>\<open>test_counter\<close>:
  create the test directory if it is not there, list the class, shuffle, take
  \<^verbatim>\<open>int(test_counter[i])\<close>, move.
  \<^verbatim>\<open>np.random.shuffle\<close> is the parameter \<open>shuffle\<close>: from the state \<open>g\<close> of the random
  generator and an array it gives the shuffled array and the next state.
\<close>

definition transfer_class ::
  "('g \<Rightarrow> string list \<Rightarrow> string list \<times> 'g) \<Rightarrow> string \<Rightarrow> pyfloat \<Rightarrow> split_fs \<times> 'g \<Rightarrow>
   error + split_fs \<times> 'g"
where
  "transfer_class shuffle d tc s =
     (let fs = fst s; g = snd s;
          fs1 = (if map_of (test_dirs fs) d = None
                 then fs\<lparr>test_dirs := AList.update d [] (test_dirs fs)\<rparr> else fs)
      in case get_files_from_folder (data_dirs fs1) d of
           Inl e \<Rightarrow> Inl e
         | Inr files \<Rightarrow>
             (let shuffled = shuffle g files
              in case py_int tc of
                   Inl e \<Rightarrow> Inl e
                 | Inr k \<Rightarrow>
                     (case move_files d (fst shuffled) [0..<nat k] fs1 of
                        Inl e \<Rightarrow> Inl e
                      | Inr fs2 \<Rightarrow> Inr (fs2, snd shuffled))))"

fun transfer_files ::
  "('g \<Rightarrow> string list \<Rightarrow> string list \<times> 'g) \<Rightarrow> (string \<times> pyfloat) list \<Rightarrow> split_fs \<times> 'g \<Rightarrow>
   error + split_fs \<times> 'g"
where
  "transfer_files shuffle [] s = Inr s"
| "transfer_files shuffle ((d, tc) # rest) s =
     (case transfer_class shuffle d tc s of
        Inl e \<Rightarrow> Inl e
      | Inr s' \<Rightarrow> transfer_files shuffle rest s')"

text \<open>
  The whole function: count every class,
  \<^verbatim>\<open>test_counter = np.round(counter_per_species * (1 - train_test_ratio))\<close>, then the
  second loop over the classes. \<open>train_test_ratio\<close> is a float. A product that overflows
  is an infinity in \<^verbatim>\<open>test_counter\<close>, and \<^verbatim>\<open>int\<close> refuses it when the turn of its
  class comes.
\<close>

definition generate_training_and_testing_datasets ::
  "('g \<Rightarrow> string list \<Rightarrow> string list \<times> 'g) \<Rightarrow> real \<Rightarrow> split_fs \<times> 'g \<Rightarrow> error + split_fs \<times> 'g"
where
  "generate_training_and_testing_datasets shuffle train_test_ratio s =
     (let dirs = map fst (data_dirs (fst s))
      in case count_files (data_dirs (fst s)) dirs of
           Inl e \<Rightarrow> Inl e
         | Inr counter_per_species \<Rightarrow>
             (let test_counter =
                    map (\<lambda>c. np_round (fmul c (fsub 1 train_test_ratio))) counter_per_species
              in transfer_files shuffle (zip dirs test_counter) s))"

text \<open>
  Names for what the theorems speak of: the entries of a class directory (none when the
  directory is absent), and the number of files the loop moves out of a class of \<open>n\<close>
  files, which is the length of \<^verbatim>\<open>range(int(test_counter[i]))\<close>.
\<close>

definition entries :: "(string \<times> string list) list \<Rightarrow> string \<Rightarrow> string list" where
  "entries tree d = (case map_of tree d of None \<Rightarrow> [] | Some es \<Rightarrow> es)"

definition test_count :: "nat \<Rightarrow> real \<Rightarrow> nat" where
  "test_count n train_test_ratio =
     (case py_int (np_round (fmul (fl (real n)) (fsub 1 train_test_ratio))) of
        Inl e \<Rightarrow> 0
      | Inr k \<Rightarrow> nat k)"

text \<open>
  A number is a double when rounding leaves it as it is and it is below \<open>2 ^ 1024\<close> in
  magnitude. Every float is one, and every int below \<open>2 ^ 53\<close> in magnitude.
\<close>

definition is_double :: "real \<Rightarrow> bool" where
  "is_double x = (fl x = x \<and> \<bar>x\<bar> < 2 ^ 1024)"

text \<open>
  The specification's side of the count: rounding to the nearest integer with ties away
  from zero, the other rule that the specification admits.
\<close>

definition round_half_away :: "real \<Rightarrow> int" where
  "round_half_away x = (if 0 \<le> x then \<lfloor>x + 1/2\<rfloor> else \<lceil>x - 1/2\<rceil>)"

text \<open>
  What a file system and the random generator guarantee: the classes have different names,
  a directory lists every entry once, and \<^verbatim>\<open>np.random.shuffle\<close> permutes its array. A
  class has fewer than \<open>2 ^ 53\<close> entries, so that their number is a double.
\<close>

definition well_formed :: "split_fs \<Rightarrow> bool" where
  "well_formed fs =
     (distinct (map fst (data_dirs fs)) \<and>
      (\<forall>(d, files)\<in>set (data_dirs fs). distinct files \<and> length files < 2 ^ 53))"

definition permutes :: "('g \<Rightarrow> string list \<Rightarrow> string list \<times> 'g) \<Rightarrow> bool" where
  "permutes shuffle = (\<forall>g xs. mset (fst (shuffle g xs)) = mset xs)"

text \<open>
  \<open>relocated fs fs' d moved\<close>: from \<open>fs\<close> to \<open>fs'\<close> the entries \<open>moved\<close> of class \<open>d\<close>, each
  once, have left the class's data directory and have been put into its test directory.
\<close>

definition relocated :: "split_fs \<Rightarrow> split_fs \<Rightarrow> string \<Rightarrow> string list \<Rightarrow> bool" where
  "relocated fs fs' d moved =
     (distinct moved \<and> set moved \<subseteq> set (entries (data_dirs fs) d) \<and>
      map_of (data_dirs fs') d =
        Some (filter (\<lambda>x. x \<notin> set moved) (entries (data_dirs fs) d)) \<and>
      map_of (test_dirs fs') d = Some (fold List.insert moved (entries (test_dirs fs) d)))"

subsection \<open>Example inputs\<close>

text \<open>
  The tree of the specification's example, \<^verbatim>\<open>{a.wav, b.txt, sub/c.wav}\<close>, listed in two
  orders.
\<close>

definition example_tree :: node where
  "example_tree = Dir [(''a.wav'', File), (''b.txt'', File), (''sub'', Dir [(''c.wav'', File)])]"

definition example_tree' :: node where
  "example_tree' = Dir [(''sub'', Dir [(''c.wav'', File)]), (''b.txt'', File), (''a.wav'', File)]"

text \<open>
  Stand-ins for the library calls in the examples: a load that succeeds, a short-time
  transform that gives \<open>1 + n_fft div 2\<close> rows as librosa's does, one per frequency bin
  (row \<open>i\<close> holds the number \<open>i\<close>, so that a cropped matrix shows which rows it kept), and
  the identity in place of the decibel values.
\<close>

definition load_ok :: "string \<Rightarrow> real \<Rightarrow> error + real list" where
  "load_ok input_path sr = Inr [0, 1, 0, - 1]"

definition stft_rows :: "real list \<Rightarrow> int \<Rightarrow> error + complex list list" where
  "stft_rows y n_fft = Inr (map (\<lambda>i. [of_nat i]) [0..<nat (1 + n_fft div 2)])"

definition db_same :: "real list list \<Rightarrow> unit \<Rightarrow> real list list" where
  "db_same S ref = S"

text \<open>
  A stand-in for matplotlib: a canvas that writes the image of every figure of a positive
  size in dots.
\<close>

definition canvas_int :: "real \<times> real \<Rightarrow> real \<Rightarrow> error + int \<times> int" where
  "canvas_int size_inches dpi =
     (case py_int (fmul (fst size_inches) dpi) of
        Inl e \<Rightarrow> Inl e
      | Inr pw \<Rightarrow>
          (case py_int (fmul (snd size_inches) dpi) of
             Inl e \<Rightarrow> Inl e
           | Inr ph \<Rightarrow> if 0 < pw \<and> 0 < ph then Inr (pw, ph) else Inl ValueError))"

text \<open>
  Two shuffles (reverse the array, leave it as it is), a corpus before its first split (ten
  images of one class, none of another, no test directories yet), and a corpus that is split
  again after the images were rendered anew under the same names.
\<close>

definition shuffle_rev :: "unit \<Rightarrow> string list \<Rightarrow> string list \<times> unit" where
  "shuffle_rev g xs = (rev xs, g)"

definition shuffle_keep :: "unit \<Rightarrow> string list \<Rightarrow> string list \<times> unit" where
  "shuffle_keep g xs = (xs, g)"

definition ten_files :: "string list" where
  "ten_files = [''0.png'', ''1.png'', ''2.png'', ''3.png'', ''4.png'',
                ''5.png'', ''6.png'', ''7.png'', ''8.png'', ''9.png'']"

definition fresh_fs :: split_fs where
  "fresh_fs = \<lparr>data_dirs = [(''common'', ten_files), (''bottlenose'', [])], test_dirs = []\<rparr>"

definition rerun_fs :: split_fs where
  "rerun_fs = \<lparr>data_dirs = [(''common'', [''0.png'', ''1.png''])],
               test_dirs = [(''common'', [''0.png'', ''9.png''])]\<rparr>"

section \<open>Properties\<close>

subsection \<open>Rounding to a double\<close>

lemma round_half_even_of_int [simp]: "round_half_even (of_int k) = k"
  by (simp add: round_half_even_def)

lemma round_half_even_0 [simp]: "round_half_even 0 = 0"
  using round_half_even_of_int [of 0] by simp

lemma round_half_even_numeral [simp]: "round_half_even (numeral k) = numeral k"
  using round_half_even_of_int [of "numeral k"] by simp

lemma round_half_even_mono: "x \<le> y \<Longrightarrow> round_half_even x \<le> round_half_even y"
proof -
  assume xy: "x \<le> y"
  have le: "\<lfloor>x\<rfloor> \<le> \<lfloor>y\<rfloor>" using xy by (rule floor_mono)
  show ?thesis
  proof (cases "\<lfloor>x\<rfloor> = \<lfloor>y\<rfloor>")
    case True
    then show ?thesis
      using xy unfolding round_half_even_def Let_def by auto
  next
    case False
    with le have "\<lfloor>x\<rfloor> + 1 \<le> \<lfloor>y\<rfloor>" by simp
    moreover have "round_half_even x \<le> \<lfloor>x\<rfloor> + 1"
      unfolding round_half_even_def Let_def by auto
    moreover have "\<lfloor>y\<rfloor> \<le> round_half_even y"
      unfolding round_half_even_def Let_def by auto
    ultimately show ?thesis by linarith
  qed
qed

lemma round_half_even_near: "\<bar>of_int (round_half_even x) - x\<bar> \<le> 1 / 2"
proof -
  have "of_int \<lfloor>x\<rfloor> \<le> x" "x < of_int \<lfloor>x\<rfloor> + 1" by linarith+
  then show ?thesis
    unfolding round_half_even_def Let_def by auto
qed

lemma round_half_even_minus: "round_half_even (- x) = - round_half_even x"
proof (cases "x \<in> \<int>")
  case True
  then obtain k where "x = of_int k" by (auto elim: Ints_cases)
  then have "- x = of_int (- k)" by simp
  then show ?thesis
    using \<open>x = of_int k\<close> by (simp only: round_half_even_of_int)
next
  case False
  then have ne: "x \<noteq> of_int \<lfloor>x\<rfloor>"
    by (metis Ints_of_int)
  then have fm: "\<lfloor>- x\<rfloor> = - \<lfloor>x\<rfloor> - 1"
    by (simp add: floor_minus ceiling_altdef)
  have b: "of_int \<lfloor>x\<rfloor> < x" "x < of_int \<lfloor>x\<rfloor> + 1"
    using ne by linarith+
  show ?thesis
    unfolding round_half_even_def Let_def fm using b by auto
qed

lemma two_powr_of_int: "2 powr real_of_int k = 2 powi k"
  by (simp add: powr_real_of_int')

lemma two_powi_pos: "(0::real) < 2 powi e"
  by simp

lemma floor_log2_iff:
  assumes "0 < x"
  shows "\<lfloor>log 2 x\<rfloor> = e \<longleftrightarrow> 2 powi e \<le> x \<and> x < 2 powi (e + 1)"
proof -
  have "\<lfloor>log 2 x\<rfloor> = e \<longleftrightarrow> 2 powr real_of_int e \<le> x \<and> x < 2 powr real_of_int (e + 1)"
    by (rule floor_log_eq_powr_iff) (use assms in auto)
  then show ?thesis
    by (simp only: two_powr_of_int)
qed

lemma floor_log2_eq:
  assumes "2 powi e \<le> x" "x < 2 powi (e + 1)"
  shows "\<lfloor>log 2 x\<rfloor> = e"
proof -
  have pos: "0 < x"
    using assms(1) two_powi_pos [of e] by linarith
  show ?thesis
    using assms floor_log2_iff [OF pos] by simp
qed

lemma binade_exists:
  assumes "0 < x"
  shows "2 powi \<lfloor>log 2 x\<rfloor> \<le> x \<and> x < 2 powi (\<lfloor>log 2 x\<rfloor> + 1)"
  using floor_log2_iff [OF assms, of "\<lfloor>log 2 x\<rfloor>"] by simp

lemma fl_binade:
  assumes "2 powi e \<le> \<bar>x\<bar>" "\<bar>x\<bar> < 2 powi (e + 1)" "- 1022 \<le> e"
  shows "fl x = of_int (round_half_even (x / 2 powi (e - 52))) * 2 powi (e - 52)"
proof -
  have "x \<noteq> 0"
    using assms(1) two_powi_pos [of e] by linarith
  then show ?thesis
    using assms(3) by (simp add: fl_def Let_def floor_log2_eq [OF assms(1,2)] max_def)
qed

lemma fl_subnormal:
  assumes "\<bar>x\<bar> < 2 powi (- 1022)"
  shows "fl x = of_int (round_half_even (x / 2 powi (- 1074))) * 2 powi (- 1074)"
proof (cases "x = 0")
  case True
  then show ?thesis by (simp add: fl_def round_half_even_def)
next
  case False
  then have pos: "0 < \<bar>x\<bar>" by simp
  define e where "e = \<lfloor>log 2 \<bar>x\<bar>\<rfloor>"
  have "2 powi e \<le> \<bar>x\<bar>"
    using binade_exists [OF pos] by (simp add: e_def)
  with assms have lt: "(2::real) powi e < 2 powi (- 1022)" by linarith
  have "e < - 1022"
  proof (rule ccontr)
    assume "\<not> e < - 1022"
    then have "(2::real) powi (- 1022) \<le> 2 powi e"
      by (intro power_int_increasing) auto
    with lt show False by linarith
  qed
  then have "max e (- 1022) = - 1022" by simp
  then show ?thesis
    using False by (simp add: fl_def Let_def e_def [symmetric])
qed

lemma scaled_binade:
  fixes x :: real
  assumes "2 powi e \<le> x" "x < 2 powi (e + 1)"
  shows "2 ^ 52 \<le> x / 2 powi (e - 52)" "x / 2 powi (e - 52) < 2 ^ 53"
proof -
  have u: "(2::real) powi (e - 52) = 2 powi e / 2 ^ 52"
    by (simp add: power_int_diff)
  have p: "(0::real) < 2 powi e" by simp
  have "x / 2 powi (e - 52) = x / 2 powi e * 2 ^ 52"
    by (simp add: u)
  moreover have "1 \<le> x / 2 powi e" using assms(1) p by (simp add: pos_le_divide_eq)
  moreover have "x / 2 powi e < 2"
    using assms(2) p by (simp add: pos_divide_less_eq power_int_add)
  ultimately have eq: "x / 2 powi (e - 52) = x / 2 powi e * 2 ^ 52"
    and lo: "1 \<le> x / 2 powi e" and hi: "x / 2 powi e < 2"
    by blast+
  have "1 * (2::real) ^ 52 \<le> x / 2 powi e * 2 ^ 52"
    using lo by (intro mult_right_mono) simp_all
  then show "2 ^ 52 \<le> x / 2 powi (e - 52)"
    by (simp only: eq mult_1)
  have "x / 2 powi e * 2 ^ 52 < 2 * (2::real) ^ 52"
    using hi by (intro mult_strict_right_mono) simp_all
  then show "x / 2 powi (e - 52) < 2 ^ 53"
    by (simp only: eq) simp
qed

lemma fl_bounds:
  assumes "2 powi e \<le> x" "x < 2 powi (e + 1)" "- 1022 \<le> e"
  shows "2 powi e \<le> fl x" "fl x \<le> 2 powi (e + 1)"
proof -
  have pos: "0 < x" using assms(1) two_powi_pos [of e] by linarith
  let ?u = "(2::real) powi (e - 52)"
  let ?k = "round_half_even (x / ?u)"
  have flx: "fl x = of_int ?k * ?u"
    using fl_binade [of e x] assms pos by simp
  have "round_half_even (of_int (2 ^ 52)) \<le> ?k"
    using scaled_binade(1) [OF assms(1,2)] by (intro round_half_even_mono) simp
  then have "(2::int) ^ 52 \<le> ?k"
    by (simp only: round_half_even_of_int)
  then have "real_of_int (2 ^ 52) \<le> of_int ?k"
    by (simp only: of_int_le_iff)
  then have lo: "(2::real) ^ 52 \<le> of_int ?k"
    by simp
  have "?k \<le> round_half_even (of_int (2 ^ 53))"
    using scaled_binade(2) [OF assms(1,2)] by (intro round_half_even_mono) simp
  then have "?k \<le> (2::int) ^ 53"
    by (simp only: round_half_even_of_int)
  then have "of_int ?k \<le> real_of_int (2 ^ 53)"
    by (simp only: of_int_le_iff)
  then have hi: "of_int ?k \<le> (2::real) ^ 53"
    by simp
  have u: "?u = 2 powi e / 2 ^ 52" by (simp add: power_int_diff)
  have "2 powi e = 2 ^ 52 * ?u" by (simp add: u)
  also have "\<dots> \<le> of_int ?k * ?u" using lo by (intro mult_right_mono) auto
  finally show "2 powi e \<le> fl x" by (simp add: flx)
  have "of_int ?k * ?u \<le> 2 ^ 53 * ?u" using hi by (intro mult_right_mono) auto
  also have "\<dots> = 2 powi (e + 1)" by (simp add: u power_int_add)
  finally show "fl x \<le> 2 powi (e + 1)" by (simp add: flx)
qed

lemma fl_subnormal_bounds:
  assumes "0 \<le> x" "x < 2 powi (- 1022)"
  shows "0 \<le> fl x" "fl x \<le> 2 powi (- 1022)"
proof -
  let ?u = "(2::real) powi (- 1074)"
  let ?k = "round_half_even (x / ?u)"
  have flx: "fl x = of_int ?k * ?u"
    using fl_subnormal [of x] assms by simp
  have "round_half_even (of_int 0) \<le> ?k"
    using assms(1) by (intro round_half_even_mono) simp
  then have k0: "0 \<le> ?k"
    by (simp only: round_half_even_of_int)
  then show "0 \<le> fl x"
    by (simp add: flx)
  have u: "(2::real) powi (- 1022) = 2 ^ 52 * ?u"
    by (simp add: power_int_def field_simps flip: power_add)
  have "x / ?u \<le> 2 ^ 52"
    using assms(2) unfolding u by (simp add: pos_divide_le_eq)
  then have "?k \<le> round_half_even (of_int (2 ^ 52))"
    by (intro round_half_even_mono) simp
  then have "?k \<le> (2::int) ^ 52"
    by (simp only: round_half_even_of_int)
  then have "of_int ?k \<le> real_of_int (2 ^ 52)"
    by (simp only: of_int_le_iff)
  then have "of_int ?k \<le> (2::real) ^ 52" by simp
  then have "of_int ?k * ?u \<le> 2 ^ 52 * ?u"
    by (intro mult_right_mono) auto
  then show "fl x \<le> 2 powi (- 1022)"
    by (simp only: flx u)
qed

lemma fl_zero [simp]: "fl 0 = 0"
  by (simp add: fl_def)

text \<open>The exponent of the unit in which a positive number is rounded.\<close>

lemma fl_unit:
  assumes "0 < x"
  obtains e where "- 1022 \<le> e" "x < 2 powi (e + 1)" "e = - 1022 \<or> 2 powi e \<le> x"
    "fl x = of_int (round_half_even (x / 2 powi (e - 52))) * 2 powi (e - 52)"
    "fl x \<le> 2 powi (e + 1)" "0 \<le> fl x" "2 powi e \<le> x \<longrightarrow> 2 powi e \<le> fl x"
proof (cases "x < 2 powi (- 1022)")
  case True
  have a: "fl x = of_int (round_half_even (x / 2 powi (- 1022 - 52))) * 2 powi (- 1022 - 52)"
    using fl_subnormal [of x] True assms by simp
  have b: "x < 2 powi (- 1022 + 1)"
  proof -
    have "(2::real) powi (- 1022) \<le> 2 powi (- 1022 + 1)"
      by (intro power_int_increasing) auto
    with True show ?thesis by linarith
  qed
  have c: "fl x \<le> 2 powi (- 1022 + 1)"
  proof -
    have "(2::real) powi (- 1022) \<le> 2 powi (- 1022 + 1)"
      by (intro power_int_increasing) auto
    with fl_subnormal_bounds(2) [of x] True assms show ?thesis by linarith
  qed
  have d: "0 \<le> fl x"
    using fl_subnormal_bounds(1) [of x] True assms by simp
  have e: "2 powi (- 1022) \<le> x \<longrightarrow> 2 powi (- 1022) \<le> fl x"
    using True by simp
  show ?thesis
    using that [of "- 1022"] a b c d e by blast
next
  case False
  define e where "e = \<lfloor>log 2 x\<rfloor>"
  have bx: "2 powi e \<le> x" "x < 2 powi (e + 1)"
    using binade_exists [OF assms] by (simp_all add: e_def)
  have ge: "- 1022 \<le> e"
  proof (rule ccontr)
    assume "\<not> - 1022 \<le> e"
    then have "e + 1 \<le> - 1022" by simp
    then have "(2::real) powi (e + 1) \<le> 2 powi (- 1022)"
      by (intro power_int_increasing) auto
    with bx(2) False show False by linarith
  qed
  have a: "fl x = of_int (round_half_even (x / 2 powi (e - 52))) * 2 powi (e - 52)"
    using fl_binade [of e x] bx ge assms by simp
  have d: "0 \<le> fl x"
    using fl_bounds(1) [OF bx ge] two_powi_pos [of e] by linarith
  show ?thesis
    using that [of e] ge bx a fl_bounds [OF bx ge] d by blast
qed

lemma fl_nonneg: "0 \<le> x \<Longrightarrow> 0 \<le> fl x"
proof (cases "x = 0")
  case True
  then show ?thesis by simp
next
  case False
  assume "0 \<le> x"
  with False have "0 < x" by simp
  then show ?thesis by (rule fl_unit)
qed

lemma fl_mono_pos:
  assumes "0 < x" "x \<le> y"
  shows "fl x \<le> fl y"
proof -
  have y: "0 < y" using assms by simp
  from assms(1) obtain ex where ex: "- 1022 \<le> ex" "x < 2 powi (ex + 1)"
      "ex = - 1022 \<or> 2 powi ex \<le> x"
      "fl x = of_int (round_half_even (x / 2 powi (ex - 52))) * 2 powi (ex - 52)"
      "fl x \<le> 2 powi (ex + 1)"
    by (rule fl_unit)
  from y obtain ey where ey: "- 1022 \<le> ey" "y < 2 powi (ey + 1)"
      "ey = - 1022 \<or> 2 powi ey \<le> y"
      "fl y = of_int (round_half_even (y / 2 powi (ey - 52))) * 2 powi (ey - 52)"
      "2 powi ey \<le> y \<longrightarrow> 2 powi ey \<le> fl y"
    by (rule fl_unit)
  have le: "ex \<le> ey"
  proof (rule ccontr)
    assume "\<not> ex \<le> ey"
    then have lt: "ey + 1 \<le> ex" by simp
    then have "ex \<noteq> - 1022" using ey(1) by simp
    with ex(3) have "2 powi ex \<le> x" by simp
    moreover have "(2::real) powi (ey + 1) \<le> 2 powi ex"
      using lt by (intro power_int_increasing) auto
    ultimately show False using ey(2) assms(2) by linarith
  qed
  show ?thesis
  proof (cases "ex = ey")
    case True
    have "round_half_even (x / 2 powi (ex - 52)) \<le> round_half_even (y / 2 powi (ex - 52))"
      using assms(2) by (intro round_half_even_mono divide_right_mono) auto
    then show ?thesis
      unfolding ex(4) ey(4) True [symmetric] by (simp add: mult_right_mono)
  next
    case False
    with le have lt: "ex + 1 \<le> ey" by simp
    then have "ey \<noteq> - 1022" using ex(1) by simp
    with ey(3,5) have "2 powi ey \<le> fl y" by simp
    moreover have "(2::real) powi (ex + 1) \<le> 2 powi ey"
      using lt by (intro power_int_increasing) auto
    ultimately show ?thesis
      using ex(5) by linarith
  qed
qed

lemma fl_mono_nonneg: "0 \<le> x \<Longrightarrow> x \<le> y \<Longrightarrow> fl x \<le> fl y"
  using fl_mono_pos [of x y] fl_nonneg [of y] by (cases "x = 0") auto

lemma fl_minus: "fl (- x) = - fl x"
  by (simp add: fl_def Let_def round_half_even_minus)

lemma fl_abs: "\<bar>fl x\<bar> = fl \<bar>x\<bar>"
proof (cases "0 \<le> x")
  case True
  then show ?thesis using fl_nonneg [of x] by simp
next
  case False
  then have "0 \<le> - x" by simp
  then have "0 \<le> fl (- x)" by (rule fl_nonneg)
  then show ?thesis using False by (simp add: fl_minus)
qed

lemma fl_of_nat:
  assumes "n < 2 ^ 53"
  shows "fl (real n) = real n"
proof (cases "n = 0")
  case True
  then show ?thesis by simp
next
  case False
  then have pos: "0 < real n" by simp
  from False have one: "1 \<le> real n" by simp
  define e where "e = \<lfloor>log 2 (real n)\<rfloor>"
  have b: "2 powi e \<le> real n" "real n < 2 powi (e + 1)"
    using binade_exists [OF pos] by (simp_all add: e_def)
  have "real n < real (2 ^ 53)"
    using assms by (simp only: of_nat_less_iff)
  then have "real n < 2 powi 53"
    by simp
  with b(1) have "(2::real) powi e < 2 powi 53"
    by linarith
  moreover have "(2::real) powi 53 \<le> 2 powi e" if "53 \<le> e"
    using that by (intro power_int_increasing) auto
  ultimately have "e < 53"
    by fastforce
  then have e52: "e \<le> 52" by simp
  have e0: "0 \<le> e"
  proof (rule ccontr)
    assume "\<not> 0 \<le> e"
    then have "e + 1 \<le> 0" by simp
    then have "(2::real) powi (e + 1) \<le> 2 powi 0"
      by (intro power_int_increasing) auto
    with b(2) one show False by simp
  qed
  define s where "s = nat (52 - e)"
  have u: "(2::real) powi (e - 52) = 1 / 2 ^ s"
    using e52 by (simp add: power_int_def s_def field_simps)
  have "real n / 2 powi (e - 52) = of_int (int n * 2 ^ s)"
    by (simp add: u)
  then have "round_half_even (real n / 2 powi (e - 52)) = int n * 2 ^ s"
    by (simp only: round_half_even_of_int)
  then have "fl (real n) = of_int (int n * 2 ^ s) * 2 powi (e - 52)"
    using fl_binade [of e "real n"] b e0 by simp
  then show ?thesis
    by (simp add: u)
qed

lemma fl_eval:
  assumes "2 powi e \<le> \<bar>x\<bar>" "\<bar>x\<bar> < 2 powi (e + 1)" "- 1022 \<le> e" "e \<le> 52" "s = nat (52 - e)"
  shows "fl x = of_int (round_half_even (x * 2 ^ s)) / 2 ^ s"
proof -
  have "(2::real) powi (e - 52) = 1 / 2 ^ s"
    using assms(4,5) by (simp add: power_int_def field_simps)
  then show ?thesis
    using fl_binade [OF assms(1,2,3)] by simp
qed

lemma fl_numeral: "numeral k < (2::nat) ^ 53 \<Longrightarrow> fl (numeral k) = numeral k"
  using fl_of_nat [of "numeral k"] by simp

lemma fl_one [simp]: "fl 1 = 1"
  using fl_of_nat [of 1] by simp

lemma fl_two_powi:
  assumes "- 1022 \<le> e"
  shows "fl (2 powi e) = 2 powi e"
proof -
  have lt: "(2::real) powi e < 2 powi (e + 1)"
    by (simp add: power_int_add)
  have u: "(2::real) powi e / 2 powi (e - 52) = of_int (2 ^ 52)"
    by (simp add: power_int_diff)
  have "fl (2 powi e) = of_int (round_half_even (2 powi e / 2 powi (e - 52))) * 2 powi (e - 52)"
    using fl_binade [of e "2 powi e"] lt assms by simp
  also have "round_half_even (2 powi e / 2 powi (e - 52)) = 2 ^ 52"
    unfolding u by (rule round_half_even_of_int)
  finally show ?thesis
    by (simp add: power_int_diff)
qed

lemma fl_le_two_powi:
  assumes "- 1022 \<le> e" "0 \<le> x" "x \<le> 2 powi e"
  shows "fl x \<le> 2 powi e"
  using fl_mono_nonneg [OF assms(2,3)] fl_two_powi [OF assms(1)] by simp

lemma fl_ge_two_powi:
  assumes "- 1022 \<le> e" "2 powi e \<le> x"
  shows "2 powi e \<le> fl x"
  using fl_mono_nonneg [of "2 powi e" x] assms fl_two_powi [OF assms(1)] by simp

text \<open>The rounding error.\<close>

lemma fl_error_normal:
  assumes "2 powi (- 1022) \<le> \<bar>x\<bar>"
  shows "\<bar>fl x - x\<bar> \<le> \<bar>x\<bar> / 2 ^ 53"
proof -
  have pos: "0 < \<bar>x\<bar>"
    using assms two_powi_pos [of "- 1022"] by linarith
  define e where "e = \<lfloor>log 2 \<bar>x\<bar>\<rfloor>"
  have b: "2 powi e \<le> \<bar>x\<bar>" "\<bar>x\<bar> < 2 powi (e + 1)"
    using binade_exists [OF pos] by (simp_all add: e_def)
  have ge: "- 1022 \<le> e"
  proof (rule ccontr)
    assume "\<not> - 1022 \<le> e"
    then have "e + 1 \<le> - 1022" by simp
    then have "(2::real) powi (e + 1) \<le> 2 powi (- 1022)"
      by (intro power_int_increasing) auto
    with b(2) assms show False by linarith
  qed
  define u :: real where "u = 2 powi (e - 52)"
  have upos: "0 < u" by (simp add: u_def)
  have flx: "fl x = of_int (round_half_even (x / u)) * u"
    unfolding u_def using b ge by (rule fl_binade)
  have "fl x - x = (of_int (round_half_even (x / u)) - x / u) * u"
    using upos by (simp add: flx left_diff_distrib)
  then have "\<bar>fl x - x\<bar> = \<bar>of_int (round_half_even (x / u)) - x / u\<bar> * u"
    using upos by (simp add: abs_mult)
  also have "\<dots> \<le> 1 / 2 * u"
    using upos round_half_even_near [of "x / u"] by (intro mult_right_mono) auto
  also have "\<dots> = 2 powi e / 2 ^ 53"
    by (simp add: u_def power_int_diff)
  also have "\<dots> \<le> \<bar>x\<bar> / 2 ^ 53"
    using b(1) by (intro divide_right_mono) auto
  finally show ?thesis .
qed

lemma fl_error_subnormal:
  assumes "\<bar>x\<bar> < 2 powi (- 1022)"
  shows "\<bar>fl x - x\<bar> \<le> 2 powi (- 1075)"
proof -
  define u :: real where "u = 2 powi (- 1074)"
  have upos: "0 < u" by (simp add: u_def)
  have flx: "fl x = of_int (round_half_even (x / u)) * u"
    unfolding u_def using assms by (rule fl_subnormal)
  have "fl x - x = (of_int (round_half_even (x / u)) - x / u) * u"
    using upos by (simp add: flx left_diff_distrib)
  then have "\<bar>fl x - x\<bar> = \<bar>of_int (round_half_even (x / u)) - x / u\<bar> * u"
    using upos by (simp add: abs_mult)
  also have "\<dots> \<le> 1 / 2 * u"
    using upos round_half_even_near [of "x / u"] by (intro mult_right_mono) auto
  also have "\<dots> = 2 powi (- 1075)"
    by (simp add: u_def power_int_def field_simps)
  finally show ?thesis .
qed

lemma fl_error:
  "\<bar>fl x - x\<bar> \<le> \<bar>x\<bar> / 2 ^ 53 + 2 powi (- 1075)"
proof (cases "2 powi (- 1022) \<le> \<bar>x\<bar>")
  case True
  have "(0::real) \<le> 2 powi (- 1075)" by simp
  with fl_error_normal [OF True] show ?thesis by linarith
next
  case False
  then have "\<bar>x\<bar> < 2 powi (- 1022)" by simp
  from fl_error_subnormal [OF this] have "\<bar>fl x - x\<bar> \<le> 2 powi (- 1075)" .
  moreover have "0 \<le> \<bar>x\<bar> / 2 ^ 53" by simp
  ultimately show ?thesis by linarith
qed

lemma fl_normal_between:
  assumes "2 powi (- 1022) \<le> f"
  shows "f - f / 2 ^ 53 \<le> fl f" "fl f \<le> f + f / 2 ^ 53" "f / 2 \<le> fl f" "0 < fl f"
proof -
  have fpos: "0 < f"
    using assms two_powi_pos [of "- 1022"] by linarith
  have "\<bar>fl f - f\<bar> \<le> \<bar>f\<bar> / 2 ^ 53"
    using assms fpos by (intro fl_error_normal) simp
  then have e: "\<bar>fl f - f\<bar> \<le> f / 2 ^ 53"
    using fpos by simp
  then show lo: "f - f / 2 ^ 53 \<le> fl f" and "fl f \<le> f + f / 2 ^ 53"
    by linarith+
  have "f / 2 ^ 53 \<le> f / 2"
    using fpos by (intro divide_left_mono) simp_all
  with lo show half: "f / 2 \<le> fl f" by linarith
  with fpos show "0 < fl f" by linarith
qed

lemma double_quotient_error:
  assumes f: "2 powi (- 1022) \<le> f" and m: "0 \<le> m"
  shows "\<bar>fl (m / fl f) - m / f\<bar> \<le> (m / f) / 2 ^ 51 + 2 powi (- 1075)"
proof -
  define g where "g = fl f"
  define t where "t = m / g"
  have fpos: "0 < f"
    using f two_powi_pos [of "- 1022"] by linarith
  note b = fl_normal_between [OF f, folded g_def]
  have gpos: "0 < g" by (rule b(4))
  have tpos: "0 \<le> t" using m gpos by (simp add: t_def)
  have t2: "t \<le> 2 * (m / f)"
  proof -
    have "m / g \<le> m / (f / 2)"
      using m fpos b(3) by (intro divide_left_mono) simp_all
    then show ?thesis by (simp add: t_def mult.commute)
  qed
  have "\<bar>g - f\<bar> \<le> f / 2 ^ 53"
    using b(1,2) by linarith
  have diff: "t - m / f = t * ((f - g) / f)"
    using fpos gpos by (simp add: t_def field_simps)
  have "\<bar>(f - g) / f\<bar> \<le> 1 / 2 ^ 53"
  proof -
    have "\<bar>(f - g) / f\<bar> = \<bar>g - f\<bar> / f"
      using fpos by (simp add: abs_minus_commute)
    also have "\<dots> \<le> (f / 2 ^ 53) / f"
      using \<open>\<bar>g - f\<bar> \<le> f / 2 ^ 53\<close> fpos by (intro divide_right_mono) simp_all
    also have "\<dots> = 1 / 2 ^ 53"
      using fpos by simp
    finally show ?thesis .
  qed
  then have "t * \<bar>(f - g) / f\<bar> \<le> t * (1 / 2 ^ 53)"
    using tpos by (intro mult_left_mono)
  then have e1: "\<bar>t - m / f\<bar> \<le> t / 2 ^ 53"
    using tpos by (simp add: diff abs_mult)
  have e2: "\<bar>fl t - t\<bar> \<le> t / 2 ^ 53 + 2 powi (- 1075)"
    using fl_error [of t] tpos by simp
  have "t / 2 ^ 53 \<le> (2 * (m / f)) / 2 ^ 53"
    using t2 by (intro divide_right_mono) simp_all
  then have t3: "t / 2 ^ 53 \<le> (m / f) / 2 ^ 52"
    by simp
  have "(m / f) / 2 ^ 52 + (m / f) / 2 ^ 52 = (m / f) / 2 ^ 51"
    by simp
  with e1 e2 t3 have "\<bar>fl t - m / f\<bar> \<le> (m / f) / 2 ^ 51 + 2 powi (- 1075)"
    by linarith
  then show ?thesis
    by (simp only: t_def g_def)
qed

lemma tiny: "(2::real) powi (- 1075) < 1 / 4"
proof -
  have "(2::real) powi (- 1075) \<le> 2 powi (- 3)"
    by (intro power_int_increasing) auto
  also have "\<dots> < 1 / 4"
    by (simp add: power_int_def power_divide)
  finally show ?thesis .
qed

lemma floor_within_one:
  fixes x y :: real
  assumes "\<bar>x - y\<bar> < 1"
  shows "\<lfloor>y\<rfloor> - 1 \<le> \<lfloor>x\<rfloor>" "\<lfloor>x\<rfloor> \<le> \<lfloor>y\<rfloor> + 1"
proof -
  have "of_int \<lfloor>y\<rfloor> \<le> y" "y < of_int \<lfloor>y\<rfloor> + 1" "of_int \<lfloor>x\<rfloor> \<le> x" "x < of_int \<lfloor>x\<rfloor> + 1"
    by linarith+
  with assms have "real_of_int \<lfloor>y\<rfloor> - 2 < of_int \<lfloor>x\<rfloor>" "real_of_int \<lfloor>x\<rfloor> < of_int \<lfloor>y\<rfloor> + 2"
    by linarith+
  then have "\<lfloor>y\<rfloor> - 2 < \<lfloor>x\<rfloor>" "\<lfloor>x\<rfloor> < \<lfloor>y\<rfloor> + 2"
    by linarith+
  then show "\<lfloor>y\<rfloor> - 1 \<le> \<lfloor>x\<rfloor>" "\<lfloor>x\<rfloor> \<le> \<lfloor>y\<rfloor> + 1"
    by linarith+
qed

lemma double_quotient_floor:
  assumes f: "2 powi (- 1022) \<le> f" and m: "0 \<le> m" and q: "m / f < 2 ^ 50"
  shows "\<lfloor>m / f\<rfloor> - 1 \<le> \<lfloor>fl (m / fl f)\<rfloor>" "\<lfloor>fl (m / fl f)\<rfloor> \<le> \<lfloor>m / f\<rfloor> + 1"
    "0 \<le> fl (m / fl f)" "fl (m / fl f) < 2 ^ 51"
proof -
  have "(m / f) / 2 ^ 51 < 2 ^ 50 / 2 ^ 51"
    using q by (intro divide_strict_right_mono) simp_all
  then have "(m / f) / 2 ^ 51 < 1 / 2" by simp
  with double_quotient_error [OF f m] tiny
  have near: "\<bar>fl (m / fl f) - m / f\<bar> < 1" by linarith
  then show "\<lfloor>m / f\<rfloor> - 1 \<le> \<lfloor>fl (m / fl f)\<rfloor>" "\<lfloor>fl (m / fl f)\<rfloor> \<le> \<lfloor>m / f\<rfloor> + 1"
    by (rule floor_within_one)+
  have "0 \<le> m / fl f"
    using m fl_normal_between(4) [OF f] by simp
  then show "0 \<le> fl (m / fl f)" by (rule fl_nonneg)
  have "(2::real) ^ 50 + 1 < 2 ^ 51" by simp
  with near q show "fl (m / fl f) < 2 ^ 51" by linarith
qed

subsection \<open>Searching for wav files\<close>

lemma endswith_suffix: "endswith s suf \<longleftrightarrow> suffix suf s"
  unfolding endswith_def suffix_def
  by (metis append_eq_conv_conj append_take_drop_id diff_add_inverse2 length_append length_drop le_add2)

lemma endswith_join: "endswith (path_join a b) ''.wav'' \<longleftrightarrow> endswith b ''.wav''"
  unfolding path_join_def endswith_suffix
  by (auto simp: suffix_def append_eq_append_conv2 append_eq_Cons_conv Cons_eq_append_conv)

lemma set_wavfiles_in:
  "set (wavfiles_in root_dir files) =
     {path_join root_dir f | f. f \<in> set files \<and> endswith f ''.wav''}"
  by (induction files) (auto simp: Let_def endswith_join)

lemma wavfiles_in_endswith: "p \<in> set (wavfiles_in root_dir files) \<Longrightarrow> endswith p ''.wav''"
  by (induction files) (auto simp: Let_def split: if_splits)

lemma yield_wavfiles_append:
  "yield_wavfiles (xs @ ys) = yield_wavfiles xs @ yield_wavfiles ys"
  by (induction xs) auto

lemma yield_wavfiles_endswith: "p \<in> set (yield_wavfiles ts) \<Longrightarrow> endswith p ''.wav''"
  by (induction ts) (auto dest: wavfiles_in_endswith)

lemma not_is_dir: "\<not> is_dir c \<longleftrightarrow> c = File"
  by (cases c) auto

lemma file_under_File [simp]: "\<not> file_under t File p m"
  by (auto elim: file_under.cases)

lemma file_under_Dir:
  "file_under t (Dir es) p m \<longleftrightarrow>
     ((m, File) \<in> set es \<and> p = path_join t m) \<or>
     (\<exists>n es'. (n, Dir es') \<in> set es \<and> file_under (path_join t n) (Dir es') p m)"
  by (auto elim: file_under.cases intro: file_under.intros)

lemma set_walk:
  "set (yield_wavfiles (walk t tree)) = wav_paths t tree"
  "set (yield_wavfiles (walk_dirs t es)) =
     {p. \<exists>n es'. (n, Dir es') \<in> set es \<and> p \<in> wav_paths (path_join t n) (Dir es')}"
proof (induction t tree and t es rule: walk_walk_dirs.induct)
  case (1 top_path)
  then show ?case by (simp add: wav_paths_def)
next
  case (2 top_path es)
  have files: "set (map fst (filter (\<lambda>e. \<not> is_dir (snd e)) es)) = {m. (m, File) \<in> set es}"
    by (force simp: not_is_dir)
  have "wav_paths top_path (Dir es) =
      {path_join top_path f | f. (f, File) \<in> set es \<and> endswith f ''.wav''} \<union>
      {p. \<exists>n es'. (n, Dir es') \<in> set es \<and> p \<in> wav_paths (path_join top_path n) (Dir es')}"
    unfolding wav_paths_def by (subst file_under_Dir) auto
  then show ?case
    using 2 files by (simp add: set_wavfiles_in)
next
  case (3 top_path)
  then show ?case by simp
next
  case (4 top_path n c es)
  have split: "set (yield_wavfiles (walk_dirs top_path ((n, c) # es))) =
      (if is_dir c then set (yield_wavfiles (walk (path_join top_path n) c)) else {}) \<union>
      set (yield_wavfiles (walk_dirs top_path es))"
    by (simp add: yield_wavfiles_append del: walk.simps)
  show ?case
  proof (cases c)
    case File
    with 4 split show ?thesis by auto
  next
    case (Dir es')
    then have "set (yield_wavfiles (walk (path_join top_path n) c)) =
        wav_paths (path_join top_path n) (Dir es')"
      using 4(1) by simp
    with 4(2) split Dir show ?thesis by auto
  qed
qed

lemma file_under_reordered:
  "file_under t a p m \<Longrightarrow> reordered a b \<Longrightarrow> file_under t b p m"
proof (induction arbitrary: b rule: file_under.induct)
  case (here n es top_path)
  from here(2) obtain es' where b: "b = Dir es'"
    and fwd: "\<And>n c. (n, c) \<in> set es \<Longrightarrow> \<exists>c'. (n, c') \<in> set es' \<and> reordered c c'"
    by (auto elim: reordered.cases)
  from fwd [OF here(1)] obtain c' where "(n, c') \<in> set es'" "reordered File c'"
    by blast
  then have "(n, File) \<in> set es'"
    by (auto elim: reordered.cases)
  then show ?case
    unfolding b by (rule file_under.here)
next
  case (below n es' es top_path p m)
  from below(4) obtain fs where b: "b = Dir fs"
    and fwd: "\<And>n c. (n, c) \<in> set es \<Longrightarrow> \<exists>c'. (n, c') \<in> set fs \<and> reordered c c'"
    by (auto elim: reordered.cases)
  from fwd [OF below(1)] obtain c' where c': "(n, c') \<in> set fs" "reordered (Dir es') c'"
    by blast
  then obtain fs' where "c' = Dir fs'"
    by (auto elim: reordered.cases)
  with c' below(3) [of c'] show ?case
    unfolding b by (auto intro: file_under.below)
qed

lemma file_under_reordered_back:
  "file_under t b p m \<Longrightarrow> reordered a b \<Longrightarrow> file_under t a p m"
proof (induction arbitrary: a rule: file_under.induct)
  case (here n es top_path)
  from here(2) obtain es' where a: "a = Dir es'"
    and bwd: "\<And>n c'. (n, c') \<in> set es \<Longrightarrow> \<exists>c. (n, c) \<in> set es' \<and> reordered c c'"
    by (auto elim: reordered.cases)
  from bwd [OF here(1)] obtain c where "(n, c) \<in> set es'" "reordered c File"
    by blast
  then have "(n, File) \<in> set es'"
    by (auto elim: reordered.cases)
  then show ?case
    unfolding a by (rule file_under.here)
next
  case (below n es' es top_path p m)
  from below(4) obtain fs where a: "a = Dir fs"
    and bwd: "\<And>n c'. (n, c') \<in> set es \<Longrightarrow> \<exists>c. (n, c) \<in> set fs \<and> reordered c c'"
    by (auto elim: reordered.cases)
  from bwd [OF below(1)] obtain c where c: "(n, c) \<in> set fs" "reordered c (Dir es')"
    by blast
  then obtain fs' where "c = Dir fs'"
    by (auto elim: reordered.cases)
  with c below(3) [of c] show ?case
    unfolding a by (auto intro: file_under.below)
qed

lemma wav_paths_reordered: "reordered a b \<Longrightarrow> wav_paths t a = wav_paths t b"
  unfolding wav_paths_def
  by (auto dest: file_under_reordered file_under_reordered_back)

lemma example_reordered: "reordered example_tree example_tree'"
  unfolding example_tree_def example_tree'_def
  by (rule reordered.same_dir) (auto intro!: reordered.intros)

lemma example_wavfiles:
  "get_all_wavfiles ''root'' example_tree = [''root/a.wav'', ''root/sub/c.wav'']"
  "get_all_wavfiles ''root'' example_tree' = [''root/a.wav'', ''root/sub/c.wav'']"
  by (simp_all add: get_all_wavfiles_def example_tree_def example_tree'_def path_join_def endswith_def)

text \<open>
  Claim C7. For every tree and every root path, \<open>get_all_wavfiles\<close> yields exactly the paths
  of the regular files, at any depth, whose name ends in \<^verbatim>\<open>.wav\<close>; and the set it yields
  is the same for every order in which the directories list their entries. On the tree
  \<^verbatim>\<open>{a.wav, b.txt, sub/c.wav}\<close> it yields \<^verbatim>\<open>a.wav\<close> and \<^verbatim>\<open>sub/c.wav\<close> under the root.
\<close>

theorem get_all_wavfiles_exact:
  "set (get_all_wavfiles root_path tree) = wav_paths root_path tree \<and>
   (reordered tree tree' \<longrightarrow>
      set (get_all_wavfiles root_path tree') = set (get_all_wavfiles root_path tree))"
  unfolding get_all_wavfiles_def set_walk by (auto simp: wav_paths_reordered)

theorem get_all_wavfiles_exact_witness:
  "reordered example_tree example_tree' \<and>
   wav_paths ''root'' example_tree = {''root/a.wav'', ''root/sub/c.wav''} \<and>
   set (get_all_wavfiles ''root'' example_tree) = {''root/a.wav'', ''root/sub/c.wav''} \<and>
   set (get_all_wavfiles ''root'' example_tree') = {''root/a.wav'', ''root/sub/c.wav''}"
  using get_all_wavfiles_exact [of "''root''" example_tree example_tree']
  by (simp add: example_wavfiles example_reordered)

subsection \<open>The render loop\<close>

lemma render_clips_wav:
  "\<forall>p\<in>set clips. endswith p ''.wav'' \<Longrightarrow>
   render_clips save out clips st = Inr st' \<Longrightarrow>
   skipped st' = skipped st \<and> count st' = count st + length clips"
proof (induction clips arbitrary: st)
  case Nil
  then show ?case by simp
next
  case (Cons c clips)
  from Cons.prems obtain sp where sp: "save c out (count st) = Inr sp"
    and rest: "render_clips save out clips (st\<lparr>count := count st + 1, saved := saved st @ [sp]\<rparr>) = Inr st'"
    by (auto split: sum.splits)
  from Cons.IH [OF _ rest] Cons.prems(1) show ?case by simp
qed

lemma render_clips_total:
  "\<forall>p\<in>set clips. endswith p ''.wav'' \<Longrightarrow>
   \<forall>c n. \<exists>p. save c out n = Inr p \<Longrightarrow>
   \<exists>st'. render_clips save out clips st = Inr st'"
proof (induction clips arbitrary: st)
  case Nil
  then show ?case by simp
next
  case (Cons c clips)
  from Cons.prems(2) obtain sp where sp: "save c out (count st) = Inr sp" by blast
  from Cons.IH [of "st\<lparr>count := count st + 1, saved := saved st @ [sp]\<rparr>"] Cons.prems sp
  show ?case by simp
qed

text \<open>
  Claim C9. Every path that \<open>get_all_wavfiles\<close> yields ends in \<^verbatim>\<open>.wav\<close>, so the render
  loop never takes its \<^verbatim>\<open>continue\<close> branch: a run of the loop over the yielded clips that
  ends normally has skipped nothing and has advanced the counter once per clip, and the loop
  does end normally when no call of \<^verbatim>\<open>save_spectrogram_image\<close> raises.
\<close>

theorem render_never_skips:
  "(\<forall>p\<in>set (get_all_wavfiles root_path tree). endswith p ''.wav'') \<and>
   (\<forall>st'. render_clips save out (get_all_wavfiles root_path tree) st = Inr st' \<longrightarrow>
      skipped st' = skipped st \<and>
      count st' = count st + length (get_all_wavfiles root_path tree)) \<and>
   ((\<forall>c n. \<exists>p. save c out n = Inr p) \<longrightarrow>
      (\<exists>st'. render_clips save out (get_all_wavfiles root_path tree) st = Inr st'))"
proof -
  have wav: "\<forall>p\<in>set (get_all_wavfiles root_path tree). endswith p ''.wav''"
    unfolding get_all_wavfiles_def by (auto dest: yield_wavfiles_endswith)
  show ?thesis
    using wav render_clips_wav [OF wav] render_clips_total [OF wav] by blast
qed

theorem render_never_skips_witness:
  "list_all (\<lambda>p. endswith p ''.wav'') (get_all_wavfiles ''root'' example_tree) \<and>
   render_clips (\<lambda>c out n. Inr (path_join out ''x.png'')) ''img''
      (get_all_wavfiles ''root'' example_tree) \<lparr>count = 0, saved = [], skipped = []\<rparr>
     = Inr \<lparr>count = 2, saved = [''img/x.png'', ''img/x.png''], skipped = []\<rparr>"
  using render_never_skips [of "''root''" example_tree "\<lambda>c out n. Inr (path_join out ''x.png'')"
      "''img''" "\<lparr>count = 0, saved = [], skipped = []\<rparr>"]
  by (simp add: example_wavfiles path_join_def endswith_def)

subsection \<open>Resetting the storage\<close>

text \<open>
  Claim C5. Whatever was at the path before (nothing, an empty directory, a directory with
  contents), one call of \<open>create_storage_for_images\<close> leaves an empty directory there; a
  second call right after does the same, and so does a call after entries \<open>added\<close> were put
  into the directory in between. The previous contents are gone in every case.
\<close>

theorem create_storage_idempotent:
  "directory_to_store_images \<noteq> Some File \<Longrightarrow>
   create_storage_for_images directory_to_store_images = Inr (Some (Dir [])) \<and>
   create_storage_for_images (Some (Dir [])) = Inr (Some (Dir [])) \<and>
   create_storage_for_images (Some (Dir added)) = Inr (Some (Dir []))"
proof -
  assume "directory_to_store_images \<noteq> Some File"
  then have "create_storage_for_images directory_to_store_images = Inr (Some (Dir []))"
  proof (cases directory_to_store_images)
    case None
    then show ?thesis by (simp add: create_storage_for_images_def path_exists_def)
  next
    case (Some c)
    with \<open>directory_to_store_images \<noteq> Some File\<close> obtain es where "c = Dir es"
      by (cases c) auto
    with Some show ?thesis by (simp add: create_storage_for_images_def path_exists_def)
  qed
  then show ?thesis
    by (simp add: create_storage_for_images_def path_exists_def)
qed

theorem create_storage_idempotent_witness:
  "Some (Dir [(''0.png'', File), (''old'', Dir [(''1.png'', File)])]) \<noteq> Some File \<and>
   create_storage_for_images (Some (Dir [(''0.png'', File), (''old'', Dir [(''1.png'', File)])]))
     = Inr (Some (Dir [])) \<and>
   create_storage_for_images (Some (Dir [(''2.png'', File)])) = Inr (Some (Dir []))"
  using create_storage_idempotent [of "Some (Dir [(''0.png'', File), (''old'', Dir [(''1.png'', File)])])"
      "[(''2.png'', File)]"]
  by simp

lemma create_storage_on_file: "create_storage_for_images (Some File) = Inl NotADirectoryError"
  by (simp add: create_storage_for_images_def path_exists_def)

subsection \<open>The crop\<close>

lemma slice_index_le: "slice_index n i \<le> n"
  unfolding slice_index_def by (cases "i < 0") auto

lemma slice_index_nonneg: "0 \<le> i \<Longrightarrow> slice_index n i = min n (nat i)"
  by (simp add: slice_index_def)

lemma py_slice_empty_iff:
  "py_slice start stop xs = [] \<longleftrightarrow>
     slice_index (length xs) stop \<le> slice_index (length xs) start"
  using slice_index_le [of "length xs" start] slice_index_le [of "length xs" stop]
  by (auto simp: py_slice_def Let_def)

lemma py_slice_in_range_empty_iff:
  assumes "0 \<le> start" "start < int (length xs)" "0 \<le> stop"
  shows "py_slice start stop xs = [] \<longleftrightarrow> stop \<le> start"
  using assms unfolding py_slice_empty_iff slice_index_def by auto

lemma filter_upt_range:
  "filter (\<lambda>i. lo \<le> i \<and> i < hi) [0..<n] = [min n lo..<min n hi]"
proof (rule sorted_distinct_set_unique)
  show "sorted (filter (\<lambda>i. lo \<le> i \<and> i < hi) [0..<n])"
    by (rule sorted_wrt_filter) simp
qed auto

lemma map_nth_upt:
  assumes "hi \<le> length xs"
  shows "map (\<lambda>i. xs ! i) [lo..<hi] = drop lo (take hi xs)"
  using assms by (intro nth_equalityI) auto

lemma py_slice_nonneg:
  assumes "0 \<le> start" "0 \<le> stop"
  shows "py_slice start stop xs = half_open_bins start stop xs"
proof -
  let ?n = "length xs"
  let ?lo = "min ?n (nat start)" and ?hi = "min ?n (nat stop)"
  have "(\<lambda>i. start \<le> int i \<and> int i < stop) = (\<lambda>i. nat start \<le> i \<and> i < nat stop)"
    using assms by (auto simp: fun_eq_iff)
  then have "half_open_bins start stop xs = map (\<lambda>i. xs ! i) [?lo..<?hi]"
    by (simp add: half_open_bins_def filter_upt_range)
  also have "\<dots> = drop ?lo (take ?hi xs)"
    by (rule map_nth_upt) simp
  also have "\<dots> = take (?hi - ?lo) (drop ?lo xs)"
    by (simp add: drop_take)
  finally show ?thesis
    using assms by (simp add: py_slice_def slice_index_nonneg Let_def)
qed

lemma trunc_nonneg: "0 \<le> y \<Longrightarrow> trunc y = \<lfloor>y\<rfloor>"
  by (simp add: trunc_def)

lemma trunc_of_int [simp]: "trunc (of_int k) = k"
  by (simp add: trunc_def)

lemma trunc_0 [simp]: "trunc 0 = 0"
  by (simp add: trunc_def)

lemma trunc_numeral [simp]: "trunc (numeral k) = numeral k"
  using trunc_of_int [of "numeral k"] by simp

lemma py_int_Float [simp]: "py_int (Float y) = Inr (trunc y)"
  by (simp add: py_int_def)

lemma py_int_Inf [simp]: "py_int FloatInf = Inl OverflowError"
  by (simp add: py_int_def)

lemma to_double_Float: "\<bar>fl x\<bar> < 2 ^ 1024 \<Longrightarrow> to_double x = Float (fl x)"
  by (simp add: to_double_def)

lemma to_double_Inf: "2 ^ 1024 \<le> \<bar>fl x\<bar> \<Longrightarrow> to_double x = FloatInf"
  by (simp add: to_double_def)

lemma fl_below:
  assumes "0 \<le> x" "x \<le> 2 ^ k"
  shows "fl x \<le> 2 ^ k"
proof -
  have "fl x \<le> 2 powi (int k)"
    using assms by (intro fl_le_two_powi) simp_all
  then show ?thesis by simp
qed

lemma to_double_in_range:
  assumes "0 \<le> x" "x \<le> 2 ^ 1023"
  shows "to_double x = Float (fl x)"
proof -
  have "fl x \<le> 2 ^ 1023" using assms by (rule fl_below)
  moreover have "0 \<le> fl x" using assms(1) by (rule fl_nonneg)
  moreover have "(2::real) ^ 1023 < 2 ^ 1024" by simp
  ultimately have "\<bar>fl x\<bar> < 2 ^ 1024" by linarith
  then show ?thesis by (rule to_double_Float)
qed

lemma to_double_eq_Float: "to_double x = Float y \<Longrightarrow> y = fl x"
  by (simp add: to_double_def split: if_splits)

lemma truediv_int_Inr:
  assumes "truediv_int a n = Inr f"
  shows "n \<noteq> 0" "f = fl (a / of_int n)"
  using assms by (simp_all add: truediv_int_def to_double_eq_Float split: if_splits pyfloat.splits)

lemma truediv_int_Inl:
  assumes "truediv_int a n = Inl e"
  shows "e = ZeroDivisionError \<and> n = 0 \<or> e = OverflowError"
  using assms by (auto simp: truediv_int_def split: if_splits pyfloat.splits)

lemma py_float_Inr: "py_float x = Inr y \<Longrightarrow> y = fl x"
  by (simp add: py_float_def to_double_eq_Float split: pyfloat.splits)

lemma py_float_Inl: "py_float x = Inl e \<Longrightarrow> e = OverflowError"
  by (auto simp: py_float_def split: pyfloat.splits)

lemma truediv_float_Inr:
  assumes "truediv_float x f = Inr q"
  shows "f \<noteq> 0" "q = to_double (fl x / f)"
  using assms
  by (auto simp: truediv_float_def fdiv_def dest: py_float_Inr split: sum.splits if_splits)

lemma truediv_float_Inl:
  assumes "truediv_float x f = Inl e"
  shows "e = ZeroDivisionError \<and> f = 0 \<or> e = OverflowError"
  using assms
  by (auto simp: truediv_float_def fdiv_def dest: py_float_Inl split: sum.splits if_splits)

lemma py_int_Inr:
  assumes "py_int q = Inr k"
  obtains y where "q = Float y" "k = trunc y"
  using assms by (cases q) auto

lemma py_int_Inl: "py_int q = Inl e \<Longrightarrow> e = OverflowError"
  by (cases q) auto

lemma freq_bins_Inr:
  assumes "freq_bins sampling_rate n_fft min_freq max_freq = Inr (min_bin, max_bin)"
  shows "n_fft \<noteq> 0" "fl (sampling_rate / of_int n_fft) \<noteq> 0"
    "min_bin = trunc (fl (fl min_freq / fl (sampling_rate / of_int n_fft)))"
    "max_bin = trunc (fl (fl max_freq / fl (sampling_rate / of_int n_fft)))"
proof -
  from assms obtain f q_min q_max where f: "truediv_int sampling_rate n_fft = Inr f"
    and q1: "truediv_float min_freq f = Inr q_min" and b1: "py_int q_min = Inr min_bin"
    and q2: "truediv_float max_freq f = Inr q_max" and b2: "py_int q_max = Inr max_bin"
    by (auto simp: freq_bins_def split: sum.splits)
  note f' = truediv_int_Inr [OF f]
  show "n_fft \<noteq> 0" by (rule f'(1))
  show "fl (sampling_rate / of_int n_fft) \<noteq> 0"
    using truediv_float_Inr(1) [OF q1] f'(2) by simp
  from b1 obtain y1 where y1: "q_min = Float y1" "min_bin = trunc y1" by (rule py_int_Inr)
  from b2 obtain y2 where y2: "q_max = Float y2" "max_bin = trunc y2" by (rule py_int_Inr)
  have "y1 = fl (fl min_freq / f)"
    using truediv_float_Inr(2) [OF q1] y1(1) by (simp add: to_double_eq_Float)
  then show "min_bin = trunc (fl (fl min_freq / fl (sampling_rate / of_int n_fft)))"
    using y1(2) f'(2) by simp
  have "y2 = fl (fl max_freq / f)"
    using truediv_float_Inr(2) [OF q2] y2(1) by (simp add: to_double_eq_Float)
  then show "max_bin = trunc (fl (fl max_freq / fl (sampling_rate / of_int n_fft)))"
    using y2(2) f'(2) by simp
qed

lemma freq_bins_Inl:
  assumes "freq_bins sampling_rate n_fft min_freq max_freq = Inl e" "n_fft \<noteq> 0"
  shows "e = ZeroDivisionError \<and> fl (sampling_rate / of_int n_fft) = 0 \<or> e = OverflowError"
proof (cases "truediv_int sampling_rate n_fft")
  case (Inl e')
  then show ?thesis
    using assms truediv_int_Inl [OF Inl] by (simp add: freq_bins_def)
next
  case (Inr f)
  note f' = truediv_int_Inr [OF Inr]
  have zero: "e' = ZeroDivisionError \<and> fl (sampling_rate / of_int n_fft) = 0 \<or> e' = OverflowError"
    if "truediv_float x f = Inl e'" for x e'
    using truediv_float_Inl [OF that] f'(2) by auto
  show ?thesis
    using assms(1) unfolding freq_bins_def Inr
    by (auto split: sum.splits dest: zero py_int_Inl)
qed

lemma transform_no_bins:
  assumes "freq_bins sampling_rate n_fft min_freq max_freq = Inl e"
  shows "spectrogram_transform load stft db input_path sampling_rate n_fft max_freq min_freq ref
     = Inl e"
  using assms by (simp add: spectrogram_transform_def)

lemma is_double_py_float: "is_double x \<Longrightarrow> py_float x = Inr x"
  by (simp add: is_double_def py_float_def to_double_def)

lemma freq_bins_in_range:
  assumes sr: "0 < sampling_rate" and n: "0 < n_fft"
    and mn: "0 \<le> min_freq" "is_double min_freq" and mx: "0 \<le> max_freq" "is_double max_freq"
    and lo: "2 powi (- 1022) \<le> sampling_rate / of_int n_fft"
    and hi: "sampling_rate / of_int n_fft \<le> 2 ^ 1023"
    and qmin: "min_freq / (sampling_rate / of_int n_fft) < 2 ^ 50"
    and qmax: "max_freq / (sampling_rate / of_int n_fft) < 2 ^ 50"
  shows "freq_bins sampling_rate n_fft min_freq max_freq =
     Inr (\<lfloor>fl (min_freq / fl (sampling_rate / of_int n_fft))\<rfloor>,
          \<lfloor>fl (max_freq / fl (sampling_rate / of_int n_fft))\<rfloor>)"
proof -
  define f where "f = sampling_rate / of_int n_fft"
  have fpos: "0 < f" using sr n by (simp add: f_def)
  note lo' = lo [folded f_def]
  have g: "0 < fl f" by (rule fl_normal_between(4) [OF lo'])
  have step: "truediv_int sampling_rate n_fft = Inr (fl f)"
    using n to_double_in_range [of f] fpos hi by (simp add: truediv_int_def f_def)
  have quot: "truediv_float m (fl f) = Inr (Float (fl (m / fl f)))" "py_int (Float (fl (m / fl f))) = Inr \<lfloor>fl (m / fl f)\<rfloor>"
    if "0 \<le> m" "is_double m" "m / f < 2 ^ 50" for m
  proof -
    note q = double_quotient_floor [OF lo' that(1,3)]
    have "\<bar>fl (m / fl f)\<bar> < 2 ^ 1024"
    proof -
      have "(2::real) ^ 51 < 2 ^ 1024" by simp
      with q(3,4) show ?thesis by linarith
    qed
    then have "to_double (m / fl f) = Float (fl (m / fl f))" by (rule to_double_Float)
    then show "truediv_float m (fl f) = Inr (Float (fl (m / fl f)))"
      using g that(2) by (simp add: truediv_float_def is_double_py_float fdiv_def)
    show "py_int (Float (fl (m / fl f))) = Inr \<lfloor>fl (m / fl f)\<rfloor>"
      using q(3) by (simp add: trunc_nonneg)
  qed
  show ?thesis
    unfolding freq_bins_def step f_def [symmetric]
    using quot [OF mn qmin [folded f_def]] quot [OF mx qmax [folded f_def]]
    by simp
qed

lemma concat_cmod_empty: "concat (map (map cmod) rows) = [] \<longleftrightarrow> concat rows = []"
  by (induction rows) auto

lemma transform_after_bins:
  assumes "freq_bins sampling_rate n_fft min_freq max_freq = Inr (min_bin, max_bin)"
  shows "spectrogram_transform load stft db input_path sampling_rate n_fft max_freq min_freq ref =
     (case load input_path sampling_rate of
        Inl e \<Rightarrow> Inl e
      | Inr y \<Rightarrow>
          (case stft y n_fft of
             Inl e \<Rightarrow> Inl e
           | Inr Y \<Rightarrow> amplitude_to_db db (map (map cmod) (py_slice min_bin max_bin Y)) ref))"
  using assms by (simp add: spectrogram_transform_def)

lemma transform_fails_iff:
  assumes bins: "freq_bins sampling_rate n_fft min_freq max_freq = Inr (min_bin, max_bin)"
    and load: "load input_path sampling_rate = Inr y"
    and stft: "stft y n_fft = Inr Y"
    and rows: "\<forall>row\<in>set Y. row \<noteq> []"
  shows "spectrogram_transform load stft db input_path sampling_rate n_fft max_freq min_freq ref =
      (if slice_index (length Y) max_bin \<le> slice_index (length Y) min_bin then Inl ValueError
       else Inr (db (map (map cmod) (py_slice min_bin max_bin Y)) ref))"
proof -
  have sub: "set (py_slice min_bin max_bin Y) \<subseteq> set Y"
    unfolding py_slice_def Let_def by (meson order_trans set_drop_subset set_take_subset)
  have "concat (py_slice min_bin max_bin Y) = [] \<longleftrightarrow> py_slice min_bin max_bin Y = []"
    using sub rows by (cases "py_slice min_bin max_bin Y") auto
  then have emp: "concat (map (map cmod) (py_slice min_bin max_bin Y)) = [] \<longleftrightarrow>
      slice_index (length Y) max_bin \<le> slice_index (length Y) min_bin"
    by (simp only: concat_cmod_empty py_slice_empty_iff)
  have "spectrogram_transform load stft db input_path sampling_rate n_fft max_freq min_freq ref =
      amplitude_to_db db (map (map cmod) (py_slice min_bin max_bin Y)) ref"
    by (simp add: transform_after_bins [OF bins] load stft)
  then show ?thesis
    unfolding amplitude_to_db_def emp .
qed

text \<open>
  Claim C6, amended. For a positive sampling rate, a positive window size below \<open>2 ^ 53\<close>
  and nonnegative \<open>min_freq\<close> and \<open>max_freq\<close>: when the bins are computed, the transform is
  load, short-time transform, keep exactly the rows of the matrix whose bin index lies in
  the half-open range from \<open>min_bin\<close> to \<open>max_bin\<close>, and only then take the magnitudes and
  map them to decibels. The bins are the floors of the quotients as Python computes them in
  doubles, \<open>f_step\<close> rounded and each quotient by it rounded again. When the arithmetic
  raises instead, \<^verbatim>\<open>ZeroDivisionError\<close> because \<open>f_step\<close> has underflowed to zero or
  \<^verbatim>\<open>OverflowError\<close>, the transform ends with that exception and crops nothing. When the
  frequencies are doubles, the exact \<open>sampling_rate / n_fft\<close> lies in the range of the
  normal doubles and the exact quotients are below \<open>2 ^ 50\<close>, the bins are computed and each
  is within one of the exact floor \<open>\<lfloor>min_freq / (sampling_rate / n_fft)\<rfloor>\<close>.
\<close>

theorem crop_half_open_range:
  assumes "0 < sampling_rate" "0 < n_fft" "n_fft < 2 ^ 53" "0 \<le> min_freq" "0 \<le> max_freq"
  shows
    "(\<forall>min_bin max_bin.
        freq_bins sampling_rate n_fft min_freq max_freq = Inr (min_bin, max_bin) \<longrightarrow>
        min_bin = \<lfloor>fl (fl min_freq / fl (sampling_rate / of_int n_fft))\<rfloor> \<and>
        max_bin = \<lfloor>fl (fl max_freq / fl (sampling_rate / of_int n_fft))\<rfloor> \<and>
        spectrogram_transform load stft db input_path sampling_rate n_fft max_freq min_freq ref =
          (case load input_path sampling_rate of
             Inl e \<Rightarrow> Inl e
           | Inr y \<Rightarrow>
               (case stft y n_fft of
                  Inl e \<Rightarrow> Inl e
                | Inr Y \<Rightarrow>
                    amplitude_to_db db (map (map cmod) (half_open_bins min_bin max_bin Y)) ref))) \<and>
     (\<forall>e. freq_bins sampling_rate n_fft min_freq max_freq = Inl e \<longrightarrow>
        (e = ZeroDivisionError \<and> fl (sampling_rate / of_int n_fft) = 0 \<or> e = OverflowError) \<and>
        spectrogram_transform load stft db input_path sampling_rate n_fft max_freq min_freq ref
          = Inl e) \<and>
     (is_double min_freq \<and> is_double max_freq \<and>
      2 powi (- 1022) \<le> sampling_rate / of_int n_fft \<and> sampling_rate / of_int n_fft \<le> 2 ^ 1023 \<and>
      min_freq / (sampling_rate / of_int n_fft) < 2 ^ 50 \<and>
      max_freq / (sampling_rate / of_int n_fft) < 2 ^ 50 \<longrightarrow>
        (\<exists>min_bin max_bin.
           freq_bins sampling_rate n_fft min_freq max_freq = Inr (min_bin, max_bin) \<and>
           \<lfloor>min_freq / (sampling_rate / of_int n_fft)\<rfloor> - 1 \<le> min_bin \<and>
           min_bin \<le> \<lfloor>min_freq / (sampling_rate / of_int n_fft)\<rfloor> + 1 \<and>
           \<lfloor>max_freq / (sampling_rate / of_int n_fft)\<rfloor> - 1 \<le> max_bin \<and>
           max_bin \<le> \<lfloor>max_freq / (sampling_rate / of_int n_fft)\<rfloor> + 1))"
proof -
  define f where "f = sampling_rate / of_int n_fft"
  have f0: "0 \<le> fl f"
    using assms(1,2) by (intro fl_nonneg) (simp add: f_def)
  have A: "min_bin = \<lfloor>fl (fl min_freq / fl f)\<rfloor> \<and> max_bin = \<lfloor>fl (fl max_freq / fl f)\<rfloor> \<and>
        spectrogram_transform load stft db input_path sampling_rate n_fft max_freq min_freq ref =
          (case load input_path sampling_rate of
             Inl e \<Rightarrow> Inl e
           | Inr y \<Rightarrow>
               (case stft y n_fft of
                  Inl e \<Rightarrow> Inl e
                | Inr Y \<Rightarrow>
                    amplitude_to_db db (map (map cmod) (half_open_bins min_bin max_bin Y)) ref))"
    if bins: "freq_bins sampling_rate n_fft min_freq max_freq = Inr (min_bin, max_bin)"
    for min_bin max_bin
  proof -
    note fb = freq_bins_Inr [OF bins, folded f_def]
    have q: "0 \<le> fl (fl m / fl f)" if "0 \<le> m" for m
    proof -
      have "0 \<le> fl m" using that by (rule fl_nonneg)
      then have "0 \<le> fl m / fl f" using f0 by simp
      then show ?thesis by (rule fl_nonneg)
    qed
    have lo: "min_bin = \<lfloor>fl (fl min_freq / fl f)\<rfloor>"
      using fb(3) q [OF assms(4)] by (simp add: trunc_nonneg)
    have hi: "max_bin = \<lfloor>fl (fl max_freq / fl f)\<rfloor>"
      using fb(4) q [OF assms(5)] by (simp add: trunc_nonneg)
    have nonneg: "0 \<le> min_bin" "0 \<le> max_bin"
      unfolding lo hi using q [OF assms(4)] q [OF assms(5)] by simp_all
    have crop: "py_slice min_bin max_bin Y = half_open_bins min_bin max_bin Y"
      for Y :: "complex list list"
      using nonneg by (rule py_slice_nonneg)
    show ?thesis
      unfolding transform_after_bins [OF bins] crop using lo hi by simp
  qed
  have B: "(e = ZeroDivisionError \<and> fl f = 0 \<or> e = OverflowError) \<and>
        spectrogram_transform load stft db input_path sampling_rate n_fft max_freq min_freq ref
          = Inl e"
    if "freq_bins sampling_rate n_fft min_freq max_freq = Inl e" for e
    using freq_bins_Inl [OF that] transform_no_bins [OF that] assms(2) by (simp add: f_def)
  have C: "\<exists>min_bin max_bin.
           freq_bins sampling_rate n_fft min_freq max_freq = Inr (min_bin, max_bin) \<and>
           \<lfloor>min_freq / f\<rfloor> - 1 \<le> min_bin \<and> min_bin \<le> \<lfloor>min_freq / f\<rfloor> + 1 \<and>
           \<lfloor>max_freq / f\<rfloor> - 1 \<le> max_bin \<and> max_bin \<le> \<lfloor>max_freq / f\<rfloor> + 1"
    if "is_double min_freq" "is_double max_freq" "2 powi (- 1022) \<le> f" "f \<le> 2 ^ 1023"
      "min_freq / f < 2 ^ 50" "max_freq / f < 2 ^ 50"
  proof -
    have "freq_bins sampling_rate n_fft min_freq max_freq =
        Inr (\<lfloor>fl (min_freq / fl f)\<rfloor>, \<lfloor>fl (max_freq / fl f)\<rfloor>)"
      unfolding f_def
      using assms(1,2,4) that(1) assms(5) that(2) that(3-6) [unfolded f_def]
      by (rule freq_bins_in_range)
    then show ?thesis
      using double_quotient_floor(1,2) [OF that(3) assms(4) that(5)]
        double_quotient_floor(1,2) [OF that(3) assms(5) that(6)]
      by simp
  qed
  show ?thesis
    unfolding f_def [symmetric] using A B C by blast
qed


lemma fl_f_step: "fl (375 / 4) = 375 / 4"
  using fl_eval [of 6 "375 / 4" 46]
  by (simp add: round_half_even_def power_int_def)

lemma fl_704_3: "fl (704 / 3) = 8256599316845909 / 35184372088832"
  using fl_eval [of 7 "704 / 3" 45]
  by (simp add: round_half_even_def power_int_def)

lemma fl_neg_16_3: "fl (- (16 / 3)) = - (6004799503160661 / 1125899906842624)"
  using fl_eval [of 2 "- (16 / 3)" 50]
  by (simp add: round_half_even_def power_int_def)

lemma fl_1280_3: "fl (1280 / 3) = 7505999378950827 / 17592186044416"
  using fl_eval [of 8 "1280 / 3" 44]
  by (simp add: round_half_even_def power_int_def)

lemma fl_neg_numeral: "numeral k < (2::nat) ^ 53 \<Longrightarrow> fl (- numeral k) = - numeral k"
  by (simp add: fl_minus fl_numeral)

lemma step_512: "truediv_int 48000 512 = Inr (375 / 4)"
  by (simp add: truediv_int_def to_double_def fl_f_step)

lemma quotient_of:
  assumes "py_float x = Inr a" "f \<noteq> 0" "fl (a / f) = q" "\<bar>q\<bar> < 2 ^ 1024"
  shows "truediv_float x f = Inr (Float q)"
  using assms by (simp add: truediv_float_def fdiv_def to_double_def)

lemma numeral_below:
  assumes "numeral k < (2::nat) ^ 53"
  shows "\<not> 2 ^ 1024 \<le> \<bar>numeral k :: real\<bar>"
proof -
  have "real (numeral k) < real (2 ^ 53)"
    using assms by (simp only: of_nat_less_iff)
  then have "(numeral k :: real) < 2 ^ 53" by simp
  moreover have "(2::real) ^ 53 < 2 ^ 1024" by simp
  ultimately have "(numeral k :: real) < 2 ^ 1024" by (rule less_trans)
  then show ?thesis by simp
qed

lemma py_float_numeral:
  assumes "numeral k < (2::nat) ^ 53"
  shows "py_float (numeral k) = Inr (numeral k)"
  using numeral_below [OF assms]
  by (simp only: py_float_def to_double_def fl_numeral [OF assms] if_False pyfloat.case)

lemma py_float_neg_numeral:
  assumes "numeral k < (2::nat) ^ 53"
  shows "py_float (- numeral k) = Inr (- numeral k)"
  using numeral_below [OF assms]
  by (simp only: py_float_def to_double_def fl_neg_numeral [OF assms] abs_minus_cancel
      if_False pyfloat.case)

lemma bin_3000: "truediv_float 3000 (375 / 4) = Inr (Float 32)"
  by (rule quotient_of [of 3000 3000]) (simp_all add: py_float_numeral fl_numeral)

lemma bin_22000:
  "truediv_float 22000 (375 / 4) = Inr (Float (8256599316845909 / 35184372088832))"
  by (rule quotient_of [of 22000 22000]) (simp_all add: py_float_numeral fl_704_3)

lemma bin_neg_500:
  "truediv_float (- 500) (375 / 4) = Inr (Float (- (6004799503160661 / 1125899906842624)))"
  by (rule quotient_of [of "- 500" "- 500"]) (simp_all add: py_float_neg_numeral fl_neg_16_3)

lemma bin_30000: "truediv_float 30000 (375 / 4) = Inr (Float 320)"
  by (rule quotient_of [of 30000 30000]) (simp_all add: py_float_numeral fl_numeral)

lemma bin_40000:
  "truediv_float 40000 (375 / 4) = Inr (Float (7505999378950827 / 17592186044416))"
  by (rule quotient_of [of 40000 40000]) (simp_all add: py_float_numeral fl_1280_3)

lemma bins_default: "freq_bins 48000 512 3000 22000 = Inr (32, 234)"
  by (simp add: freq_bins_def step_512 bin_3000 bin_22000 trunc_def)

lemma bins_swapped: "freq_bins 48000 512 22000 3000 = Inr (234, 32)"
  by (simp add: freq_bins_def step_512 bin_3000 bin_22000 trunc_def)

lemma bins_negative: "freq_bins 48000 512 3000 (- 500) = Inr (32, - 5)"
  by (simp add: freq_bins_def step_512 bin_3000 bin_neg_500 trunc_def)

lemma bins_high: "freq_bins 48000 512 30000 40000 = Inr (320, 426)"
  by (simp add: freq_bins_def step_512 bin_30000 bin_40000 trunc_def)

text \<open>
  A window size that does not divide the sampling rate: \<open>48000 / 496\<close> is rounded up, and
  the quotient of 3000 by it, exactly 31, is rounded to a double just below 31.
\<close>

lemma fl_3000_31: "fl (3000 / 31) = 3404939234403097 / 35184372088832"
  using fl_eval [of 6 "3000 / 31" 46]
  by (simp add: round_half_even_def power_int_def)

lemma fl_q_3000:
  "fl (105553116266496000 / 3404939234403097) = 8725724278030335 / 281474976710656"
  using fl_eval [of 4 "105553116266496000 / 3404939234403097" 48]
  by (simp add: round_half_even_def power_int_def)

lemma fl_q_3001:
  "fl (105588300638584832 / 3404939234403097) = 8728632852789679 / 281474976710656"
  using fl_eval [of 4 "105588300638584832 / 3404939234403097" 48]
  by (simp add: round_half_even_def power_int_def)

lemma step_496: "truediv_int 48000 496 = Inr (3404939234403097 / 35184372088832)"
  by (simp add: truediv_int_def to_double_def fl_3000_31)

lemma bin_3000_496:
  "truediv_float 3000 (3404939234403097 / 35184372088832)
     = Inr (Float (8725724278030335 / 281474976710656))"
  by (rule quotient_of [of 3000 3000]) (simp_all add: py_float_numeral fl_q_3000)

lemma bin_3001_496:
  "truediv_float 3001 (3404939234403097 / 35184372088832)
     = Inr (Float (8728632852789679 / 281474976710656))"
  by (rule quotient_of [of 3001 3001]) (simp_all add: py_float_numeral fl_q_3001)

lemma bins_496: "freq_bins 48000 496 3000 3001 = Inr (30, 31)"
  by (simp add: freq_bins_def step_496 bin_3000_496 bin_3001_496 trunc_def)

text \<open>
  The two ways in which the arithmetic of the bins raises: the smallest positive double as
  the sampling rate, so that \<open>f_step\<close> underflows to zero, and a \<open>max_freq\<close> whose quotient
  by \<open>f_step = 0.5\<close> overflows.
\<close>

lemma fl_underflow: "fl (2 powi (- 1074) / 512) = 0"
proof -
  have "(2::real) powi (- 1074) / 512 \<le> 2 powi (- 1074)"
    by (simp add: field_simps)
  also have "\<dots> < 2 powi (- 1022)"
    by (intro power_int_strict_increasing) auto
  finally have "\<bar>(2::real) powi (- 1074) / 512\<bar> < 2 powi (- 1022)"
    by simp
  from fl_subnormal [OF this] show ?thesis
    by (simp add: round_half_even_def)
qed

lemma bins_underflow: "freq_bins (2 powi (- 1074)) 512 3000 22000 = Inl ZeroDivisionError"
proof -
  have "truediv_int (2 powi (- 1074)) 512 = Inr 0"
    unfolding truediv_int_def to_double_def
    by (simp only: of_int_numeral fl_underflow) simp
  moreover have "truediv_float 3000 0 = Inl ZeroDivisionError"
    by (simp add: truediv_float_def py_float_numeral fdiv_def)
  ultimately show ?thesis
    unfolding freq_bins_def by (simp only: sum.case)
qed

lemma fl_half: "fl (1 / 2) = 1 / 2"
  using fl_two_powi [of "- 1"] by (simp add: power_int_def)

lemma fl_two_power: "fl (2 ^ k) = 2 ^ k"
  using fl_two_powi [of "int k"] by simp

lemma bins_overflow: "freq_bins 256 512 0 (2 ^ 1023) = Inl OverflowError"
proof -
  have f: "truediv_int 256 512 = Inr (1 / 2)"
    by (simp add: truediv_int_def to_double_def fl_half)
  have q0: "truediv_float 0 (1 / 2) = Inr (Float 0)"
    by (simp add: truediv_float_def py_float_def fdiv_def to_double_def)
  have "py_float (2 ^ 1023) = Inr (2 ^ 1023)"
    unfolding py_float_def to_double_def fl_two_power by simp
  moreover have "to_double (2 ^ 1023 / (1 / 2)) = FloatInf"
  proof -
    have "(2::real) ^ 1023 / (1 / 2) = 2 ^ 1024" by simp
    then show ?thesis
      unfolding to_double_def by (simp only: fl_two_power) simp
  qed
  ultimately have q1: "truediv_float (2 ^ 1023) (1 / 2) = Inr FloatInf"
    by (simp add: truediv_float_def fdiv_def)
  show ?thesis
    by (simp only: freq_bins_def f q0 q1 sum.case py_int_Float py_int_Inf)
qed

lemma rows_kept:
  "lo \<le> hi \<Longrightarrow> hi \<le> n \<Longrightarrow>
   take (hi - lo) (drop lo (map (\<lambda>i. [of_nat i :: complex]) [0..<n])) =
   map (\<lambda>i. [of_nat i]) [lo..<hi]"
  by (simp add: take_map drop_map)

lemma cmod_rows: "map (map cmod) (map (\<lambda>i. [of_nat i]) ns) = map (\<lambda>i. [real i]) ns"
  by simp

lemma concat_rows: "concat (map (\<lambda>i. [f i]) ns) = map f ns"
  by (induction ns) auto

lemma transform_stand_in:
  assumes bins: "freq_bins sr n mn mx = Inr (a, b)"
    and crop: "py_slice a b (map (\<lambda>i. [of_nat i :: complex]) [0..<nat (1 + n div 2)]) =
               map (\<lambda>i. [of_nat i]) [lo..<hi]"
  shows "spectrogram_transform load_ok stft_rows db_same p sr n mx mn () =
     (if lo < hi then Inr (map (\<lambda>i. [real i]) [lo..<hi]) else Inl ValueError)"
proof -
  have "spectrogram_transform load_ok stft_rows db_same p sr n mx mn () =
      amplitude_to_db db_same
        (map (map cmod) (py_slice a b (map (\<lambda>i. [of_nat i :: complex]) [0..<nat (1 + n div 2)]))) ()"
    unfolding transform_after_bins [OF bins] by (simp add: load_ok_def stft_rows_def)
  also have "\<dots> = amplitude_to_db db_same (map (\<lambda>i. [real i]) [lo..<hi]) ()"
    unfolding crop cmod_rows ..
  also have "\<dots> = (if lo < hi then Inr (map (\<lambda>i. [real i]) [lo..<hi]) else Inl ValueError)"
    unfolding amplitude_to_db_def concat_rows by (simp add: db_same_def)
  finally show ?thesis .
qed

lemma rows_512: "nat (1 + 512 div 2) = 257"
  by simp

lemma rows_496: "nat (1 + 496 div 2) = 249"
  by simp

lemma transform_default:
  "spectrogram_transform load_ok stft_rows db_same ''a.wav'' 48000 512 22000 3000 ()
     = Inr (map (\<lambda>i. [real i]) [32..<234])"
proof -
  have "py_slice 32 234 (map (\<lambda>i. [of_nat i :: complex]) [0..<nat (1 + 512 div 2)]) =
      map (\<lambda>i. [of_nat i]) [32..<234]"
    unfolding rows_512
    using rows_kept [of 32 234 257] by (simp add: py_slice_def slice_index_def del: upt_rec_numeral)
  from transform_stand_in [OF bins_default this] show ?thesis by simp
qed

lemma transform_swapped:
  "spectrogram_transform load_ok stft_rows db_same ''a.wav'' 48000 512 3000 22000 ()
     = Inl ValueError"
proof -
  have "py_slice 234 32 (map (\<lambda>i. [of_nat i :: complex]) [0..<nat (1 + 512 div 2)]) =
      map (\<lambda>i. [of_nat i]) [0..<0]"
    unfolding rows_512
    by (simp add: py_slice_def slice_index_def del: upt_rec_numeral)
  from transform_stand_in [OF bins_swapped this] show ?thesis by simp
qed

lemma transform_negative:
  "spectrogram_transform load_ok stft_rows db_same ''a.wav'' 48000 512 (- 500) 3000 ()
     = Inr (map (\<lambda>i. [real i]) [32..<252])"
proof -
  have "py_slice 32 (- 5) (map (\<lambda>i. [of_nat i :: complex]) [0..<nat (1 + 512 div 2)]) =
      map (\<lambda>i. [of_nat i]) [32..<252]"
    unfolding rows_512
    using rows_kept [of 32 252 257] by (simp add: py_slice_def slice_index_def del: upt_rec_numeral)
  from transform_stand_in [OF bins_negative this] show ?thesis by simp
qed

lemma transform_high:
  "spectrogram_transform load_ok stft_rows db_same ''a.wav'' 48000 512 40000 30000 ()
     = Inl ValueError"
proof -
  have "py_slice 320 426 (map (\<lambda>i. [of_nat i :: complex]) [0..<nat (1 + 512 div 2)]) =
      map (\<lambda>i. [of_nat i]) [0..<0]"
    unfolding rows_512
    by (simp add: py_slice_def slice_index_def del: upt_rec_numeral)
  from transform_stand_in [OF bins_high this] show ?thesis by simp
qed

lemma transform_496:
  "spectrogram_transform load_ok stft_rows db_same ''a.wav'' 48000 496 3001 3000 ()
     = Inr [[30]]"
proof -
  have "py_slice 30 31 (map (\<lambda>i. [of_nat i :: complex]) [0..<nat (1 + 496 div 2)]) =
      map (\<lambda>i. [of_nat i]) [30..<31]"
    unfolding rows_496
    using rows_kept [of 30 31 249] by (simp add: py_slice_def slice_index_def del: upt_rec_numeral)
  from transform_stand_in [OF bins_496 this] show ?thesis by simp
qed

lemma stand_in_rows: "\<forall>row\<in>set (map (\<lambda>i. [of_nat i :: complex]) [0..<n]). row \<noteq> []"
  by simp

lemma load_ok_eq: "load_ok p sr = Inr [0, 1, 0, - 1]"
  by (simp add: load_ok_def)

lemma stft_rows_512: "stft_rows y 512 = Inr (map (\<lambda>i. [of_nat i]) [0..<257])"
  by (simp add: stft_rows_def del: upt_rec_numeral)

lemma stft_rows_496: "stft_rows y 496 = Inr (map (\<lambda>i. [of_nat i]) [0..<249])"
  by (simp add: stft_rows_def del: upt_rec_numeral)



theorem crop_half_open_range_witness:
  "(0::real) < 48000 \<and> (0::int) < 496 \<and> (496::int) < 2 ^ 53 \<and>
   (0::real) \<le> 3000 \<and> (0::real) \<le> 3001 \<and>
   freq_bins 48000 496 3000 3001 = Inr (30, 31) \<and>
   \<lfloor>fl (fl 3000 / fl (48000 / 496))\<rfloor> = 30 \<and> \<lfloor>fl (fl 3001 / fl (48000 / 496))\<rfloor> = 31 \<and>
   \<lfloor>(3000::real) / (48000 / 496)\<rfloor> = 31 \<and> \<lfloor>(3001::real) / (48000 / 496)\<rfloor> = 31 \<and>
   half_open_bins 30 31 (map (\<lambda>i. [of_nat i :: complex]) [0..<249]) = [[30]] \<and>
   spectrogram_transform load_ok stft_rows db_same ''a.wav'' 48000 496 3001 3000 ()
     = Inr [[30]] \<and>
   is_double 3000 \<and> is_double 3001 \<and>
   2 powi (- 1022) \<le> (48000::real) / 496 \<and> (48000::real) / 496 \<le> 2 ^ 1023 \<and>
   (3000::real) / (48000 / 496) < 2 ^ 50 \<and> (3001::real) / (48000 / 496) < 2 ^ 50 \<and>
   freq_bins (2 powi (- 1074)) 512 3000 22000 = Inl ZeroDivisionError \<and>
   spectrogram_transform load_ok stft_rows db_same ''a.wav'' (2 powi (- 1074)) 512 22000 3000 ()
     = Inl ZeroDivisionError"
proof -
  have p: "(0::real) < 48000" "(0::int) < 496" "(496::int) < 2 ^ 53"
    "(0::real) \<le> 3000" "(0::real) \<le> 3001"
    by simp_all
  note t = crop_half_open_range [where load = load_ok and input_path = "''a.wav''"
      and stft = stft_rows and db = db_same and ref = "()"]
  note a = t [OF p, THEN conjunct1, rule_format, OF bins_496]
  have fl1: "\<lfloor>fl (fl 3000 / fl (48000 / 496))\<rfloor> = 30" "\<lfloor>fl (fl 3001 / fl (48000 / 496))\<rfloor> = 31"
    using a by simp_all
  have "half_open_bins 30 31 (map (\<lambda>i. [of_nat i :: complex]) [0..<249]) =
      map (\<lambda>i. [of_nat i]) [30..<31]"
    using py_slice_nonneg [of 30 31 "map (\<lambda>i. [of_nat i :: complex]) [0..<249]"]
      rows_kept [of 30 31 249]
    by (simp add: py_slice_def slice_index_def del: upt_rec_numeral)
  also have "\<dots> = [[30]]"
    by simp
  finally have crop: "half_open_bins 30 31 (map (\<lambda>i. [of_nat i :: complex]) [0..<249]) = [[30]]" .
  have "spectrogram_transform load_ok stft_rows db_same ''a.wav'' 48000 496 3001 3000 ()
      = amplitude_to_db db_same
          (map (map cmod) (half_open_bins 30 31 (map (\<lambda>i. [of_nat i]) [0..<249]))) ()"
    using a by (simp add: load_ok_eq stft_rows_496 del: upt_rec_numeral)
  then have tr: "spectrogram_transform load_ok stft_rows db_same ''a.wav'' 48000 496 3001 3000 ()
      = Inr [[30]]"
    unfolding crop by (simp add: amplitude_to_db_def db_same_def)
  have ex: "\<lfloor>(3000::real) / (48000 / 496)\<rfloor> = 31" "\<lfloor>(3001::real) / (48000 / 496)\<rfloor> = 31"
    by simp_all
  have dbl: "is_double 3000" "is_double 3001"
    using numeral_below [of "num.Bit0 (num.Bit0 (num.Bit0 (num.Bit1 (num.Bit1 (num.Bit1 (num.Bit0 (num.Bit1 (num.Bit1 (num.Bit1 num.One)))))))))"]
    by (simp_all add: is_double_def fl_numeral)
  have rng: "2 powi (- 1022) \<le> (48000::real) / 496" "(48000::real) / 496 \<le> 2 ^ 1023"
    "(3000::real) / (48000 / 496) < 2 ^ 50" "(3001::real) / (48000 / 496) < 2 ^ 50"
    by (simp_all add: power_int_def field_simps)
  have q: "(0::real) < 2 powi (- 1074)" "(0::int) < 512" "(512::int) < 2 ^ 53"
    "(0::real) \<le> 22000"
    by simp_all
  note c = t [OF q(1,2,3) p(4) q(4), THEN conjunct2, THEN conjunct1, rule_format,
      OF bins_underflow]
  from t [OF p, THEN conjunct2, THEN conjunct2, rule_format] dbl rng
  have near: "\<exists>min_bin max_bin.
      freq_bins 48000 496 3000 3001 = Inr (min_bin, max_bin) \<and>
      \<lfloor>(3000::real) / (48000 / 496)\<rfloor> - 1 \<le> min_bin \<and>
      min_bin \<le> \<lfloor>(3000::real) / (48000 / 496)\<rfloor> + 1 \<and>
      \<lfloor>(3001::real) / (48000 / 496)\<rfloor> - 1 \<le> max_bin \<and>
      max_bin \<le> \<lfloor>(3001::real) / (48000 / 496)\<rfloor> + 1"
    by simp
  show ?thesis
    using p fl1 ex crop tr dbl rng c near
    by (simp only: bins_496 bins_underflow simp_thms)
qed

text \<open>
  Claim C6 as stated fails: the bounds of the crop are not the floors of the exact quotients.
  With the sampling rate 48000 and the window size 496, \<open>3000 / f_step\<close> is exactly 31 and
  \<open>3001 / f_step\<close> lies between 31 and 32, so the claimed range from 31 to 31 is empty.
  Python's \<open>f_step\<close> is a double above \<open>48000 / 496\<close>, its quotient of 3000 is a double
  below 31, and the crop keeps row 30.
\<close>

theorem crop_half_open_range_counterexample:
  "(0::real) \<le> 3000 \<and> (0::real) \<le> 3001 \<and>
   \<lfloor>(3000::real) / (48000 / 496)\<rfloor> = 31 \<and> \<lfloor>(3001::real) / (48000 / 496)\<rfloor> = 31 \<and>
   half_open_bins 31 31 (map (\<lambda>i. [of_nat i :: complex]) [0..<249]) = [] \<and>
   stft_rows [0, 1, 0, - 1] 496 = Inr (map (\<lambda>i. [of_nat i]) [0..<249]) \<and>
   (48000::real) / 496 < fl (48000 / 496) \<and> fl (fl 3000 / fl (48000 / 496)) < 31 \<and>
   freq_bins 48000 496 3000 3001 = Inr (30, 31) \<and>
   spectrogram_transform load_ok stft_rows db_same ''a.wav'' 48000 496 3001 3000 ()
     = Inr [[30]]"
proof -
  have "half_open_bins 31 31 (map (\<lambda>i. [of_nat i :: complex]) [0..<249]) = []"
    by (simp add: half_open_bins_def del: upt_rec_numeral)
  moreover have "(48000::real) / 496 < fl (48000 / 496)" "fl (fl 3000 / fl (48000 / 496)) < 31"
    by (simp_all add: fl_3000_31 fl_numeral fl_q_3000)
  ultimately show ?thesis
    by (simp add: stft_rows_496 bins_496 transform_496 del: upt_rec_numeral)
qed

subsection \<open>The size of the image\<close>

lemma double_product_error:
  fixes w dpi :: real
  assumes w: "1 \<le> w" and d: "0 < dpi" and lo: "2 powi (- 1022) \<le> w / dpi"
  shows "\<bar>fl (fl (w / dpi) * dpi) - w\<bar> \<le> w * 3 / 2 ^ 53"
proof -
  define x where "x = fl (w / dpi)"
  define p where "p = x * dpi"
  have wpos: "0 < w" using w by simp
  have "\<bar>fl (w / dpi) - w / dpi\<bar> \<le> \<bar>w / dpi\<bar> / 2 ^ 53"
    using lo wpos d by (intro fl_error_normal) simp
  then have ex: "\<bar>x - w / dpi\<bar> \<le> (w / dpi) / 2 ^ 53"
    using wpos d by (simp add: x_def)
  have "p - w = (x - w / dpi) * dpi"
    using d by (simp add: p_def left_diff_distrib)
  then have "\<bar>p - w\<bar> = \<bar>x - w / dpi\<bar> * dpi"
    using d by (simp add: abs_mult)
  also have "\<dots> \<le> (w / dpi) / 2 ^ 53 * dpi"
    using ex d by (intro mult_right_mono) simp_all
  also have "\<dots> = w / 2 ^ 53"
    using d by simp
  finally have ep: "\<bar>p - w\<bar> \<le> w / 2 ^ 53" .
  have small: "w / 2 ^ 53 \<le> w / 2"
    using wpos by (intro divide_left_mono) simp_all
  have p_lo: "1 / 2 \<le> p" and p_hi: "p \<le> 2 * w"
    using ep small w by linarith+
  have "(2::real) powi (- 1022) \<le> 2 powi (- 1)"
    by (intro power_int_increasing) auto
  also have "\<dots> = 1 / 2"
    by (simp add: power_int_def)
  finally have "2 powi (- 1022) \<le> \<bar>p\<bar>"
    using p_lo by simp
  then have "\<bar>fl p - p\<bar> \<le> \<bar>p\<bar> / 2 ^ 53"
    by (rule fl_error_normal)
  also have "\<dots> \<le> (2 * w) / 2 ^ 53"
    using p_lo p_hi by (intro divide_right_mono) simp_all
  finally have "\<bar>fl p - p\<bar> \<le> (2 * w) / 2 ^ 53" .
  with ep have "\<bar>fl p - w\<bar> \<le> w / 2 ^ 53 + (2 * w) / 2 ^ 53"
    by linarith
  also have "\<dots> = w * 3 / 2 ^ 53"
    by simp
  finally show ?thesis
    by (simp only: p_def x_def)
qed

lemma pixel_extent:
  assumes n: "0 < n" "n < 2 ^ 51" and d: "0 < dpi"
    and lo: "2 powi (- 1022) \<le> real n / dpi" and hi: "real n / dpi \<le> 2 ^ 1023"
  shows "fdiv (real n) dpi = Inr (Float (fl (real n / dpi)))"
    "py_int (fmul (fl (real n / dpi)) dpi) =
       Inr (if real n \<le> fl (fl (real n / dpi) * dpi) then int n else int n - 1)"
proof -
  define y where "y = fl (fl (real n / dpi) * dpi)"
  have one: "1 \<le> real n" using n(1) by simp
  have "0 \<le> real n / dpi" using d by simp
  then have "to_double (real n / dpi) = Float (fl (real n / dpi))"
    using hi by (rule to_double_in_range)
  then show "fdiv (real n) dpi = Inr (Float (fl (real n / dpi)))"
    using d by (simp add: fdiv_def)
  have "real n < real (2 ^ 51)"
    using n(2) by (simp only: of_nat_less_iff)
  then have lt: "real n < 2 ^ 51" by simp
  then have "real n * 3 / 2 ^ 53 < 2 ^ 51 * 3 / 2 ^ 53"
    by (intro divide_strict_right_mono mult_strict_right_mono) simp_all
  then have "real n * 3 / 2 ^ 53 < 3 / 4" by simp
  with double_product_error [OF one d lo]
  have near: "\<bar>y - real n\<bar> < 3 / 4"
    unfolding y_def by linarith
  have y0: "0 \<le> y" using near one by linarith
  have "(2::real) ^ 51 + 1 < 2 ^ 1024" by simp
  with near lt y0 have "\<bar>y\<bar> < 2 ^ 1024" by linarith
  then have prod: "fmul (fl (real n / dpi)) dpi = Float y"
    unfolding fmul_def y_def by (rule to_double_Float)
  have fl_y: "\<lfloor>y\<rfloor> = (if real n \<le> y then int n else int n - 1)"
  proof (cases "real n \<le> y")
    case True
    have "real_of_int (int n) \<le> y" "y < real_of_int (int n) + 1"
      using True near by simp_all
    then have "\<lfloor>y\<rfloor> = int n"
      by (rule floor_unique)
    with True show ?thesis by simp
  next
    case False
    have m: "real_of_int (int n - 1) = real n - 1" by simp
    have "real_of_int (int n - 1) \<le> y" "y < real_of_int (int n - 1) + 1"
      unfolding m using False near by linarith+
    then have "\<lfloor>y\<rfloor> = int n - 1"
      by (rule floor_unique)
    with False show ?thesis by simp
  qed
  show "py_int (fmul (fl (real n / dpi)) dpi) =
       Inr (if real n \<le> fl (fl (real n / dpi) * dpi) then int n else int n - 1)"
    unfolding prod using fl_y y0 by (simp add: trunc_nonneg y_def)
qed


lemma truncating_canvas_int: "truncating canvas_int"
  unfolding truncating_def canvas_int_def
  by (auto split: sum.splits if_splits)

lemma fl_413_96: "fl (413 / 96) = 4843715224229205 / 1125899906842624"
  using fl_eval [of 2 "413 / 96" 50]
  by (simp add: round_half_even_def power_int_def)

lemma fl_413_96_dots: "fl (14531145672687615 / 35184372088832) = 413"
  using fl_eval [of 8 "14531145672687615 / 35184372088832" 44]
  by (simp add: round_half_even_def power_int_def)

lemma fl_101_48: "fl (101 / 48) = 4738162107962709 / 2251799813685248"
  using fl_eval [of 1 "101 / 48" 51]
  by (simp add: round_half_even_def power_int_def)

lemma fl_202_dots: "fl (14214486323888127 / 70368744177664) = 202"
  using fl_eval [of 7 "14214486323888127 / 70368744177664" 45]
  by (simp add: round_half_even_def power_int_def)

lemma fl_413_144: "fl (413 / 144) = 1614571741409735 / 562949953421312"
  using fl_eval [of 1 "413 / 144" 51]
  by (simp add: round_half_even_def power_int_def)

lemma fl_101_72: "fl (101 / 72) = 1579387369320903 / 1125899906842624"
  using fl_eval [of 0 "101 / 72" 52]
  by (simp add: round_half_even_def power_int_def)

lemma fl_29_100: "fl (29 / 100) = 5224175567749775 / 18014398509481984"
  using fl_eval [of "- 2" "29 / 100" 54]
  by (simp add: round_half_even_def power_int_def power_divide)

lemma fl_29_100_dots:
  "fl (130604389193744375 / 4503599627370496) = 8162774324609023 / 281474976710656"
  using fl_eval [of 4 "130604389193744375 / 4503599627370496" 48]
  by (simp add: round_half_even_def power_int_def)

lemma fl_101_50: "fl (101 / 50) = 4548635623644201 / 2251799813685248"
  using fl_eval [of 1 "101 / 50" 51]
  by (simp add: round_half_even_def power_int_def)

lemma fl_202_100_dots: "fl (113715890591105025 / 562949953421312) = 202"
  using fl_eval [of 7 "113715890591105025 / 562949953421312" 45]
  by (simp add: round_half_even_def power_int_def)

lemma fl_29_96: "fl (29 / 96) = 5441849549739349 / 18014398509481984"
  using fl_eval [of "- 2" "29 / 96" 54]
  by (simp add: round_half_even_def power_int_def power_divide)

lemma fl_29_96_dots: "fl (16325548649218047 / 562949953421312) = 29"
  using fl_eval [of 4 "16325548649218047 / 562949953421312" 48]
  by (simp add: round_half_even_def power_int_def)

lemma canvas_413_202_at_96:
  "canvas_int (4843715224229205 / 1125899906842624, 4738162107962709 / 2251799813685248) 96
     = Inr (413, 202)"
  by (simp add: canvas_int_def fmul_def to_double_def fl_413_96_dots fl_202_dots trunc_def)

lemma canvas_413_202_at_144:
  "canvas_int (1614571741409735 / 562949953421312, 1579387369320903 / 1125899906842624) 144
     = Inr (413, 202)"
  by (simp add: canvas_int_def fmul_def to_double_def fl_413_96_dots fl_202_dots trunc_def)

lemma canvas_29_202_at_100:
  "canvas_int (5224175567749775 / 18014398509481984, 4548635623644201 / 2251799813685248) 100
     = Inr (28, 202)"
  by (simp add: canvas_int_def fmul_def to_double_def fl_29_100_dots fl_202_100_dots trunc_def)

lemma canvas_29_202_at_96:
  "canvas_int (5441849549739349 / 18014398509481984, 4738162107962709 / 2251799813685248) 96
     = Inr (29, 202)"
  by (simp add: canvas_int_def fmul_def to_double_def fl_29_96_dots fl_202_dots trunc_def)

lemma saved_image_size_eval:
  assumes "dpi \<noteq> 0" "fl (real W / dpi) = w" "\<bar>w\<bar> < 2 ^ 1024"
    "fl (real H / dpi) = h" "\<bar>h\<bar> < 2 ^ 1024"
  shows "saved_image_size canvas (W, H) dpi = canvas (w, h) dpi"
  using assms by (simp add: saved_image_size_def figsize_def fdiv_def to_double_def)

lemma saved_29_202_at_100: "saved_image_size canvas_int (29, 202) 100 = Inr (28, 202)"
  unfolding canvas_29_202_at_100 [symmetric]
  by (rule saved_image_size_eval) (simp_all add: fl_29_100 fl_101_50)

lemma saved_29_202_at_96: "saved_image_size canvas_int (29, 202) 96 = Inr (29, 202)"
  unfolding canvas_29_202_at_96 [symmetric]
  by (rule saved_image_size_eval) (simp_all add: fl_29_96 fl_101_48)



subsection \<open>The split\<close>

lemma product_in_range:
  assumes "n < 2 ^ 53" "0 \<le> r" "r \<le> 1"
  shows "fmul (fl (real n)) (fsub 1 r) = Float (fl (real n * fl (1 - r)))"
    "0 \<le> fl (real n * fl (1 - r))" "fl (real n * fl (1 - r)) \<le> real n"
proof -
  have n: "fl (real n) = real n" using assms(1) by (rule fl_of_nat)
  have "fl (1 - r) \<le> fl 1" using assms by (intro fl_mono_nonneg) auto
  then have s1: "fl (1 - r) \<le> 1" by simp
  have s0: "0 \<le> fl (1 - r)" using assms by (intro fl_nonneg) simp
  have "0 \<le> real n * fl (1 - r)" using s0 by simp
  then show lo: "0 \<le> fl (real n * fl (1 - r))" by (rule fl_nonneg)
  have "fl (real n * fl (1 - r)) \<le> fl (real n)"
    using s0 s1 by (intro fl_mono_nonneg) (auto simp: mult_left_le)
  then show hi: "fl (real n * fl (1 - r)) \<le> real n" by (simp only: n)
  have "real n < real (2 ^ 53)"
    using assms(1) by (simp only: of_nat_less_iff)
  then have "real n < 2 ^ 53" by simp
  moreover have "(2::real) ^ 53 < 2 ^ 1024" by simp
  ultimately have "\<bar>fl (real n * fl (1 - r))\<bar> < 2 ^ 1024"
    using lo hi by linarith
  then show "fmul (fl (real n)) (fsub 1 r) = Float (fl (real n * fl (1 - r)))"
    by (simp add: fmul_def fsub_def n to_double_Float)
qed

lemma round_half_even_nonneg: "0 \<le> x \<Longrightarrow> 0 \<le> round_half_even x"
  using round_half_even_mono [of "of_int 0" x] by (simp del: of_int_0)

lemma test_counter_entry:
  assumes "n < 2 ^ 53" "0 \<le> r" "r \<le> 1"
  shows "py_int (np_round (fmul (fl (real n)) (fsub 1 r))) =
      Inr (round_half_even (fl (real n * fl (1 - r))))"
    "int (test_count n r) = round_half_even (fl (real n * fl (1 - r)))"
proof -
  note p = product_in_range [OF assms]
  show "py_int (np_round (fmul (fl (real n)) (fsub 1 r))) =
      Inr (round_half_even (fl (real n * fl (1 - r))))"
    by (simp add: p(1) np_round_def)
  then show "int (test_count n r) = round_half_even (fl (real n * fl (1 - r)))"
    using round_half_even_nonneg [OF p(2)] by (simp add: test_count_def)
qed

lemma test_count_le:
  assumes "n < 2 ^ 53" "0 \<le> r" "r \<le> 1"
  shows "test_count n r \<le> n"
proof -
  note p = product_in_range [OF assms]
  have "round_half_even (fl (real n * fl (1 - r))) \<le> round_half_even (real_of_int (int n))"
    using p(3) by (intro round_half_even_mono) simp
  then have "round_half_even (fl (real n * fl (1 - r))) \<le> int n"
    by (simp only: round_half_even_of_int)
  then show ?thesis
    using test_counter_entry(2) [OF assms] by linarith
qed

text \<open>
  How far the count is from the exact product: the two roundings to a double each add at
  most \<open>n / 2 ^ 53\<close>, the rounding to an integer at most a half.
\<close>

lemma product_error:
  assumes "n < 2 ^ 53" "0 \<le> r" "r \<le> 1"
  shows "\<bar>fl (real n * fl (1 - r)) - real n * (1 - r)\<bar> \<le> real n / 2 ^ 52"
proof (cases "n = 0")
  case True
  then show ?thesis by simp
next
  case False
  then have n1: "1 \<le> real n" by simp
  define s where "s = fl (1 - r)"
  define p where "p = real n * s"
  have "fl (1 - r) \<le> fl 1" using assms by (intro fl_mono_nonneg) auto
  then have s1: "s \<le> 1" by (simp add: s_def)
  have s0: "0 \<le> s" unfolding s_def using assms by (intro fl_nonneg) simp
  have tiny': "(2::real) powi (- 1075) \<le> 1 / 2 ^ 53"
  proof -
    have "(2::real) powi (- 1075) \<le> 2 powi (- 53)"
      by (intro power_int_increasing) auto
    then show ?thesis by (simp add: power_int_def field_simps)
  qed
  have es: "\<bar>s - (1 - r)\<bar> \<le> 1 / 2 ^ 53"
  proof (cases "2 powi (- 1022) \<le> \<bar>1 - r\<bar>")
    case True
    from fl_error_normal [OF True] have "\<bar>s - (1 - r)\<bar> \<le> \<bar>1 - r\<bar> / 2 ^ 53"
      by (simp add: s_def)
    also have "\<dots> \<le> 1 / 2 ^ 53"
      using assms by (intro divide_right_mono) simp_all
    finally show ?thesis .
  next
    case False
    then have "\<bar>1 - r\<bar> < 2 powi (- 1022)" by simp
    from fl_error_subnormal [OF this] tiny' show ?thesis
      by (simp add: s_def)
  qed
  have p0: "0 \<le> p" and pn: "p \<le> real n"
    using s0 s1 by (simp_all add: p_def mult_left_le)
  have ep: "\<bar>fl p - p\<bar> \<le> real n / 2 ^ 53"
  proof (cases "2 powi (- 1022) \<le> \<bar>p\<bar>")
    case True
    from fl_error_normal [OF True] have "\<bar>fl p - p\<bar> \<le> \<bar>p\<bar> / 2 ^ 53" .
    also have "\<dots> \<le> real n / 2 ^ 53"
      using p0 pn by (intro divide_right_mono) simp_all
    finally show ?thesis .
  next
    case False
    then have "\<bar>p\<bar> < 2 powi (- 1022)" by simp
    from fl_error_subnormal [OF this] have "\<bar>fl p - p\<bar> \<le> 2 powi (- 1075)" .
    also have "\<dots> \<le> 1 / 2 ^ 53" by (rule tiny')
    also have "\<dots> \<le> real n / 2 ^ 53"
      using n1 by (intro divide_right_mono) simp_all
    finally show ?thesis .
  qed
  have "p - real n * (1 - r) = real n * (s - (1 - r))"
    by (simp add: p_def algebra_simps)
  then have "\<bar>p - real n * (1 - r)\<bar> = real n * \<bar>s - (1 - r)\<bar>"
    by (simp add: abs_mult)
  also have "\<dots> \<le> real n * (1 / 2 ^ 53)"
    using es by (intro mult_left_mono) simp_all
  finally have "\<bar>p - real n * (1 - r)\<bar> \<le> real n / 2 ^ 53"
    by simp
  with ep have "\<bar>fl p - real n * (1 - r)\<bar> \<le> real n / 2 ^ 53 + real n / 2 ^ 53"
    by linarith
  also have "\<dots> = real n / 2 ^ 52"
    by simp
  finally show ?thesis
    by (simp only: p_def s_def)
qed

lemma test_count_near:
  assumes "n < 2 ^ 53" "0 \<le> r" "r \<le> 1"
  shows "\<bar>real (test_count n r) - real n * (1 - r)\<bar> \<le> 1 / 2 + real n / 2 ^ 52"
proof -
  have "real (test_count n r) = real_of_int (int (test_count n r))" by simp
  also have "\<dots> = of_int (round_half_even (fl (real n * fl (1 - r))))"
    by (simp only: test_counter_entry(2) [OF assms])
  finally have "real (test_count n r) = of_int (round_half_even (fl (real n * fl (1 - r))))" .
  then show ?thesis
    using round_half_even_near [of "fl (real n * fl (1 - r))"] product_error [OF assms]
    by linarith
qed

lemma round_half_even_unique:
  assumes "of_int k - 1 / 2 < x" "x < of_int k + 1 / 2"
  shows "round_half_even x = k"
proof (cases "of_int k \<le> x")
  case True
  then have "\<lfloor>x\<rfloor> = k" using assms(2) by (intro floor_unique) simp_all
  then show ?thesis
    using assms(2) by (simp add: round_half_even_def Let_def)
next
  case False
  have m: "real_of_int (k - 1) = of_int k - 1" by simp
  have "real_of_int (k - 1) \<le> x" "x < real_of_int (k - 1) + 1"
    unfolding m using False assms(1) by linarith+
  then have "\<lfloor>x\<rfloor> = k - 1" by (rule floor_unique)
  then show ?thesis
    using assms(1) by (simp add: round_half_even_def Let_def)
qed

lemma round_half_away_unique:
  assumes "0 \<le> x" "of_int k - 1 / 2 < x" "x < of_int k + 1 / 2"
  shows "round_half_away x = k"
proof -
  have "of_int k \<le> x + 1 / 2" "x + 1 / 2 < of_int k + 1"
    using assms(2,3) by linarith+
  then have "\<lfloor>x + 1 / 2\<rfloor> = k" by (rule floor_unique)
  then show ?thesis
    using assms(1) by (simp add: round_half_away_def)
qed

lemma rounding_agrees:
  assumes near: "\<bar>y - x\<bar> \<le> e" and x0: "0 \<le> x"
    and far: "\<forall>k::int. e < \<bar>x - (of_int k + 1 / 2)\<bar>"
  shows "round_half_even y = round_half_even x" "round_half_even y = round_half_away x"
proof -
  define k where "k = \<lfloor>x + 1 / 2\<rfloor>"
  have b: "of_int k \<le> x + 1 / 2" "x + 1 / 2 < of_int k + 1"
    unfolding k_def by linarith+
  have "e < \<bar>x - (of_int (k - 1) + 1 / 2)\<bar>" using far by blast
  then have lo: "of_int k - 1 / 2 < x - e" using b(1) by simp
  have "e < \<bar>x - (of_int k + 1 / 2)\<bar>" using far by blast
  then have hi: "x + e < of_int k + 1 / 2" using b(2) by simp
  have e0: "0 \<le> e" using near by linarith
  have y: "of_int k - 1 / 2 < y" "y < of_int k + 1 / 2"
    using near lo hi by linarith+
  have x: "of_int k - 1 / 2 < x" "x < of_int k + 1 / 2"
    using e0 lo hi by linarith+
  show "round_half_even y = round_half_even x"
    using round_half_even_unique [OF y] round_half_even_unique [OF x] by simp
  show "round_half_even y = round_half_away x"
    using round_half_even_unique [OF y] round_half_away_unique [OF x0 x] by simp
qed

lemma shutil_move_effect:
  assumes "map_of (data_dirs fs) d = Some src" "map_of (test_dirs fs) d = Some dst"
    and "file_name \<in> set src"
  shows "shutil_move d file_name fs =
     Inr (fs\<lparr>data_dirs := AList.update d (removeAll file_name src) (data_dirs fs),
             test_dirs := AList.update d (List.insert file_name dst) (test_dirs fs)\<rparr>)"
  using assms by (simp add: shutil_move_def)

lemma move_files_effect:
  assumes "map_of (data_dirs fs) d = Some src" "map_of (test_dirs fs) d = Some dst"
    and "\<forall>j\<in>set js. j < length files"
    and "distinct (map (\<lambda>j. files ! j) js)"
    and "set (map (\<lambda>j. files ! j) js) \<subseteq> set src"
  shows "move_files d files js fs =
     Inr (fs\<lparr>data_dirs :=
               AList.update d (filter (\<lambda>x. x \<notin> set (map (\<lambda>j. files ! j) js)) src) (data_dirs fs),
             test_dirs :=
               AList.update d (fold List.insert (map (\<lambda>j. files ! j) js) dst) (test_dirs fs)\<rparr>)"
  using assms
proof (induction js arbitrary: fs src dst)
  case Nil
  then show ?case by (simp add: update_triv)
next
  case (Cons j js)
  let ?name = "files ! j"
  let ?fs1 = "fs\<lparr>data_dirs := AList.update d (removeAll ?name src) (data_dirs fs),
                 test_dirs := AList.update d (List.insert ?name dst) (test_dirs fs)\<rparr>"
  have mv: "shutil_move d ?name fs = Inr ?fs1"
    using Cons.prems by (intro shutil_move_effect) auto
  have d1: "map_of (data_dirs ?fs1) d = Some (removeAll ?name src)"
    and t1: "map_of (test_dirs ?fs1) d = Some (List.insert ?name dst)"
    by (simp_all add: update_conv')
  have sub: "set (map (\<lambda>j. files ! j) js) \<subseteq> set (removeAll ?name src)"
  proof
    fix x assume x: "x \<in> set (map (\<lambda>j. files ! j) js)"
    have "?name \<notin> set (map (\<lambda>j. files ! j) js)" using Cons.prems(4) by simp
    with x have "x \<noteq> ?name" by blast
    moreover have "x \<in> set src" using x Cons.prems(5) by auto
    ultimately show "x \<in> set (removeAll ?name src)" by simp
  qed
  have "move_files d files js ?fs1 =
     Inr (?fs1\<lparr>data_dirs :=
               AList.update d (filter (\<lambda>x. x \<notin> set (map (\<lambda>j. files ! j) js)) (removeAll ?name src))
                 (data_dirs ?fs1),
             test_dirs :=
               AList.update d (fold List.insert (map (\<lambda>j. files ! j) js) (List.insert ?name dst))
                 (test_dirs ?fs1)\<rparr>)"
    using Cons.prems(3,4) by (intro Cons.IH [OF d1 t1 _ _ sub]) auto
  moreover have "filter (\<lambda>x. x \<notin> set (map (\<lambda>j. files ! j) js)) (removeAll ?name src) =
      filter (\<lambda>x. x \<notin> set (map (\<lambda>j. files ! j) (j # js))) src"
    by (induction src) auto
  ultimately show ?case
    using mv Cons.prems(3) by simp
qed

lemma map_nth_take: "k \<le> length xs \<Longrightarrow> map (\<lambda>j. xs ! j) [0..<k] = take k xs"
  by (intro nth_equalityI) auto

lemma get_files_from_folder_Some:
  "map_of tree d = Some files \<Longrightarrow> get_files_from_folder tree d = Inr files"
  by (simp add: get_files_from_folder_def)

lemma transfer_class_effect:
  assumes src: "map_of (data_dirs fs) d = Some src" and dist: "distinct src"
    and perm: "mset (fst (shuffle g src)) = mset src"
    and tc: "py_int tc = Inr c" and le: "nat c \<le> length src"
  shows "transfer_class shuffle d tc (fs, g) =
     Inr (fs\<lparr>data_dirs :=
               AList.update d
                 (filter (\<lambda>x. x \<notin> set (take (nat c) (fst (shuffle g src)))) src)
                 (data_dirs fs),
             test_dirs :=
               AList.update d
                 (fold List.insert (take (nat c) (fst (shuffle g src)))
                    (entries (test_dirs fs) d))
                 (test_dirs fs)\<rparr>,
          snd (shuffle g src))"
proof -
  define files where "files = fst (shuffle g src)"
  define k where "k = nat c"
  define fs1 where "fs1 = (if map_of (test_dirs fs) d = None
              then fs\<lparr>test_dirs := AList.update d [] (test_dirs fs)\<rparr> else fs)"
  have len: "length files = length src"
    using perm unfolding files_def by (metis size_mset)
  have dfiles: "distinct files"
    using perm dist unfolding files_def by (metis mset_eq_imp_distinct_iff)
  have sfiles: "set files = set src"
    using perm unfolding files_def by (metis set_mset_mset)
  have d1: "map_of (data_dirs fs1) d = Some src"
    using src by (simp add: fs1_def)
  have t1: "map_of (test_dirs fs1) d = Some (entries (test_dirs fs) d)"
  proof (cases "map_of (test_dirs fs) d")
    case None
    then show ?thesis by (simp add: fs1_def entries_def update_conv')
  next
    case (Some dst)
    then show ?thesis by (simp add: fs1_def entries_def)
  qed
  have mp: "map (\<lambda>j. files ! j) [0..<k] = take k files"
    using le len by (intro map_nth_take) (simp add: k_def)
  have mv: "move_files d files [0..<k] fs1 =
     Inr (fs1\<lparr>data_dirs :=
               AList.update d (filter (\<lambda>x. x \<notin> set (map (\<lambda>j. files ! j) [0..<k])) src)
                 (data_dirs fs1),
             test_dirs :=
               AList.update d (fold List.insert (map (\<lambda>j. files ! j) [0..<k])
                 (entries (test_dirs fs) d)) (test_dirs fs1)\<rparr>)"
  proof (rule move_files_effect [OF d1 t1])
    show "\<forall>j\<in>set [0..<k]. j < length files" using le len by (simp add: k_def)
    show "distinct (map (\<lambda>j. files ! j) [0..<k])"
      unfolding mp using dfiles by simp
    show "set (map (\<lambda>j. files ! j) [0..<k]) \<subseteq> set src"
      unfolding mp using sfiles set_take_subset [of k files] by auto
  qed
  have dd: "data_dirs fs1 = data_dirs fs"
    by (simp add: fs1_def)
  have td: "AList.update d B (test_dirs fs1) = AList.update d B (test_dirs fs)" for B
    by (simp add: fs1_def)
  have fin: "fs1\<lparr>data_dirs := A, test_dirs := B\<rparr> = fs\<lparr>data_dirs := A, test_dirs := B\<rparr>" for A B
    by (simp add: fs1_def)
  have "transfer_class shuffle d tc (fs, g) =
      (case move_files d files [0..<k] fs1 of
         Inl e \<Rightarrow> Inl e
       | Inr fs2 \<Rightarrow> Inr (fs2, snd (shuffle g src)))"
    unfolding transfer_class_def Let_def fst_conv snd_conv fs1_def [symmetric]
      get_files_from_folder_Some [OF d1] files_def k_def tc
    by simp
  also have "\<dots> = Inr (fs\<lparr>data_dirs :=
               AList.update d (filter (\<lambda>x. x \<notin> set (take k files)) src) (data_dirs fs),
             test_dirs :=
               AList.update d (fold List.insert (take k files) (entries (test_dirs fs) d))
                 (test_dirs fs)\<rparr>,
          snd (shuffle g src))"
    unfolding mv mp dd td fin by simp
  finally show ?thesis
    unfolding files_def k_def .
qed

lemma relocated_frame:
  assumes "relocated fs1 fs' d moved"
    and "map_of (data_dirs fs1) d = map_of (data_dirs fs) d"
    and "map_of (test_dirs fs1) d = map_of (test_dirs fs) d"
  shows "relocated fs fs' d moved"
  using assms by (simp add: relocated_def entries_def)

lemma transfer_files_effect:
  assumes "distinct (map fst pairs)"
    and "\<forall>(d, tc)\<in>set pairs. \<exists>src c. map_of (data_dirs fs) d = Some src \<and> distinct src \<and>
           py_int tc = Inr c \<and> nat c \<le> length src"
    and perm: "\<forall>g xs. mset (fst (shuffle g xs)) = mset xs"
  shows "\<exists>fs' g'. transfer_files shuffle pairs (fs, g) = Inr (fs', g') \<and>
     (\<forall>d. d \<notin> fst ` set pairs \<longrightarrow>
        map_of (data_dirs fs') d = map_of (data_dirs fs) d \<and>
        map_of (test_dirs fs') d = map_of (test_dirs fs) d) \<and>
     (\<forall>(d, tc)\<in>set pairs. \<exists>moved c. py_int tc = Inr c \<and> length moved = nat c \<and>
        relocated fs fs' d moved)"
  using assms(1,2)
proof (induction pairs arbitrary: fs g)
  case Nil
  then show ?case by simp
next
  case (Cons pair rest)
  obtain d tc where pair: "pair = (d, tc)" by (cases pair)
  from Cons.prems(2) pair obtain src c where src: "map_of (data_dirs fs) d = Some src"
    and dist: "distinct src" and tc: "py_int tc = Inr c" and le: "nat c \<le> length src"
    by auto
  define moved where "moved = take (nat c) (fst (shuffle g src))"
  define fs1 where "fs1 = fs\<lparr>data_dirs :=
               AList.update d (filter (\<lambda>x. x \<notin> set moved) src) (data_dirs fs),
             test_dirs :=
               AList.update d (fold List.insert moved (entries (test_dirs fs) d)) (test_dirs fs)\<rparr>"
  define g1 where "g1 = snd (shuffle g src)"
  have step: "transfer_class shuffle d tc (fs, g) = Inr (fs1, g1)"
    unfolding fs1_def g1_def moved_def
    using perm by (intro transfer_class_effect [OF src dist _ tc le]) simp
  have other: "map_of (data_dirs fs1) x = map_of (data_dirs fs) x"
      "map_of (test_dirs fs1) x = map_of (test_dirs fs) x" if "x \<noteq> d" for x
    using that by (simp_all add: fs1_def update_conv')
  have notin: "d \<notin> fst ` set rest"
    using Cons.prems(1) pair by simp
  have len: "length (fst (shuffle g src)) = length src"
    using perm by (metis size_mset)
  have dm: "distinct moved"
    unfolding moved_def using perm dist by (metis distinct_take mset_eq_imp_distinct_iff)
  have sm: "set moved \<subseteq> set src"
    unfolding moved_def using perm set_take_subset [of "nat c" "fst (shuffle g src)"]
    by (metis set_mset_mset)
  have lm: "length moved = nat c"
    unfolding moved_def using le len by simp
  have here: "relocated fs fs1 d moved"
    using dm sm src by (simp add: relocated_def entries_def fs1_def update_conv')
  have pre: "\<forall>(d', tc')\<in>set rest. \<exists>src c. map_of (data_dirs fs1) d' = Some src \<and> distinct src \<and>
           py_int tc' = Inr c \<and> nat c \<le> length src"
  proof (clarify)
    fix d' tc' assume in_rest: "(d', tc') \<in> set rest"
    then have "d' \<noteq> d" using notin by force
    then show "\<exists>src c. map_of (data_dirs fs1) d' = Some src \<and> distinct src \<and>
           py_int tc' = Inr c \<and> nat c \<le> length src"
      using Cons.prems(2) in_rest other(1) [of d'] by auto
  qed
  have dr: "distinct (map fst rest)" using Cons.prems(1) by simp
  from Cons.IH [OF dr pre, of g1]
  obtain fs' g' where run: "transfer_files shuffle rest (fs1, g1) = Inr (fs', g')"
    and frame0: "\<forall>x. x \<notin> fst ` set rest \<longrightarrow>
        map_of (data_dirs fs') x = map_of (data_dirs fs1) x \<and>
        map_of (test_dirs fs') x = map_of (test_dirs fs1) x"
    and rel0: "\<forall>(d', tc')\<in>set rest.
        \<exists>moved c. py_int tc' = Inr c \<and> length moved = nat c \<and> relocated fs1 fs' d' moved"
    by blast
  have rel: "\<exists>moved c. py_int tc' = Inr c \<and> length moved = nat c \<and> relocated fs1 fs' d' moved"
    if "(d', tc') \<in> set rest" for d' tc'
    using rel0 that by blast
  have frame: "map_of (data_dirs fs') x = map_of (data_dirs fs1) x \<and>
        map_of (test_dirs fs') x = map_of (test_dirs fs1) x" if "x \<notin> fst ` set rest" for x
    using frame0 that by blast
  have run': "transfer_files shuffle (pair # rest) (fs, g) = Inr (fs', g')"
    by (simp add: pair step run)
  have frame': "map_of (data_dirs fs') x = map_of (data_dirs fs) x \<and>
        map_of (test_dirs fs') x = map_of (test_dirs fs) x" if "x \<notin> fst ` set (pair # rest)" for x
  proof -
    from that have "x \<noteq> d" "x \<notin> fst ` set rest" by (auto simp: pair)
    then show ?thesis using frame [of x] other [of x] by simp
  qed
  have rel_d: "relocated fs fs' d moved"
    using here frame [OF notin] by (simp add: relocated_def)
  have rel': "\<exists>moved c. py_int tc' = Inr c \<and> length moved = nat c \<and> relocated fs fs' d' moved"
    if "(d', tc') \<in> set (pair # rest)" for d' tc'
  proof (cases "(d', tc') = pair")
    case True
    then show ?thesis using rel_d lm tc pair by auto
  next
    case False
    with that have in_rest: "(d', tc') \<in> set rest" by simp
    then have "d' \<noteq> d" using notin by force
    from rel [OF in_rest] obtain mv c' where "py_int tc' = Inr c'" "length mv = nat c'"
        "relocated fs1 fs' d' mv"
      by blast
    then show ?thesis
      using relocated_frame [OF _ other(1) other(2), OF _ \<open>d' \<noteq> d\<close> \<open>d' \<noteq> d\<close>] by blast
  qed
  show ?case
    using run' frame' rel' by blast
qed

lemma count_files_effect:
  assumes "\<forall>d\<in>set ds. map_of tree d \<noteq> None"
  shows "count_files tree ds = Inr (map (\<lambda>d. fl (real (length (entries tree d)))) ds)"
  using assms by (induction ds) (auto simp: get_files_from_folder_def entries_def)

lemma zip_map_same: "zip xs (map f xs) = map (\<lambda>x. (x, f x)) xs"
  by (induction xs) auto

lemma generate_effect:
  assumes names: "distinct (map fst (data_dirs fs))"
    and files: "\<forall>(d, files)\<in>set (data_dirs fs). distinct files \<and> length files < 2 ^ 53"
    and perm: "\<forall>g xs. mset (fst (shuffle g xs)) = mset xs"
    and ratio: "0 \<le> r" "r \<le> 1"
  shows "\<exists>fs' g'. generate_training_and_testing_datasets shuffle r (fs, g) = Inr (fs', g') \<and>
     (\<forall>d. map_of (data_dirs fs) d = None \<longrightarrow> map_of (test_dirs fs') d = map_of (test_dirs fs) d) \<and>
     (\<forall>d src. map_of (data_dirs fs) d = Some src \<longrightarrow>
        (\<exists>moved. length moved = test_count (length src) r \<and> relocated fs fs' d moved))"
proof -
  define tree where "tree = data_dirs fs"
  define dirs where "dirs = map fst tree"
  define tcf where "tcf = (\<lambda>d. np_round (fmul (fl (real (length (entries tree d)))) (fsub 1 r)))"
  define pairs where "pairs = map (\<lambda>d. (d, tcf d)) dirs"
  have known: "\<forall>d\<in>set dirs. map_of tree d \<noteq> None"
    unfolding dirs_def by (auto simp: map_of_eq_None_iff)
  have gen: "generate_training_and_testing_datasets shuffle r (fs, g) =
      transfer_files shuffle pairs (fs, g)"
    unfolding generate_training_and_testing_datasets_def Let_def fst_conv
      tree_def [symmetric] dirs_def [symmetric] count_files_effect [OF known]
    by (simp add: pairs_def tcf_def zip_map_same o_def)
  have dp: "distinct (map fst pairs)"
    using names by (simp add: pairs_def dirs_def tree_def o_def)
  have tc: "py_int (tcf d) = Inr (round_half_even (fl (real (length (entries tree d)) * fl (1 - r))))"
      "nat (round_half_even (fl (real (length (entries tree d)) * fl (1 - r)))) =
         test_count (length (entries tree d)) r"
    if "length (entries tree d) < 2 ^ 53" for d
    using test_counter_entry [OF that ratio] by (simp_all add: tcf_def)
  have pre: "\<forall>(d, tc)\<in>set pairs. \<exists>src c. map_of (data_dirs fs) d = Some src \<and> distinct src \<and>
           py_int tc = Inr c \<and> nat c \<le> length src"
  proof (clarify)
    fix d tc' assume "(d, tc') \<in> set pairs"
    then have d: "d \<in> set dirs" and tc': "tc' = tcf d" by (auto simp: pairs_def)
    from d known obtain src where src: "map_of tree d = Some src" by auto
    then have "(d, src) \<in> set (data_dirs fs)" by (auto simp: tree_def dest: map_of_SomeD)
    with files have ok: "distinct src" "length src < 2 ^ 53" by auto
    have len: "length (entries tree d) < 2 ^ 53"
      using src ok(2) by (simp add: entries_def)
    have "nat (round_half_even (fl (real (length (entries tree d)) * fl (1 - r)))) \<le> length src"
      unfolding tc(2) [OF len] using src ok(2) ratio by (simp add: entries_def test_count_le)
    with src ok(1) tc(1) [OF len] show "\<exists>src c. map_of (data_dirs fs) d = Some src \<and> distinct src \<and>
           py_int tc' = Inr c \<and> nat c \<le> length src"
      unfolding tc' by (auto simp: tree_def)
  qed
  from transfer_files_effect [OF dp pre perm, of g]
  obtain fs' g' where run: "transfer_files shuffle pairs (fs, g) = Inr (fs', g')"
    and frame0: "\<forall>x. x \<notin> fst ` set pairs \<longrightarrow>
        map_of (data_dirs fs') x = map_of (data_dirs fs) x \<and>
        map_of (test_dirs fs') x = map_of (test_dirs fs) x"
    and rel0: "\<forall>(d, tc)\<in>set pairs.
        \<exists>moved c. py_int tc = Inr c \<and> length moved = nat c \<and> relocated fs fs' d moved"
    by blast
  have frame: "map_of (data_dirs fs') x = map_of (data_dirs fs) x \<and>
        map_of (test_dirs fs') x = map_of (test_dirs fs) x" if "x \<notin> fst ` set pairs" for x
    using frame0 that by blast
  have rel: "\<exists>moved c. py_int tc = Inr c \<and> length moved = nat c \<and> relocated fs fs' d moved"
    if "(d, tc) \<in> set pairs" for d tc
    using rel0 that by blast
  have keys: "fst ` set pairs = set dirs"
    by (force simp: pairs_def)
  have absent: "map_of (test_dirs fs') d = map_of (test_dirs fs) d"
    if "map_of (data_dirs fs) d = None" for d
  proof -
    from that have "d \<notin> set dirs"
      by (simp add: dirs_def tree_def map_of_eq_None_iff)
    then show ?thesis using frame [of d] keys by simp
  qed
  have present: "\<exists>moved. length moved = test_count (length src) r \<and> relocated fs fs' d moved"
    if "map_of (data_dirs fs) d = Some src" for d src
  proof -
    from that have "d \<in> set dirs"
      unfolding dirs_def tree_def by (metis map_of_eq_None_iff option.distinct(1) set_map)
    then have "(d, tcf d) \<in> set pairs" by (simp add: pairs_def)
    from rel [OF this] obtain moved c where c: "py_int (tcf d) = Inr c"
      and m: "length moved = nat c" "relocated fs fs' d moved"
      by blast
    have "(d, src) \<in> set (data_dirs fs)" using that by (rule map_of_SomeD)
    with files have "length src < 2 ^ 53" by auto
    then have len: "length (entries tree d) < 2 ^ 53"
      using that by (simp add: entries_def tree_def)
    have "nat c = test_count (length (entries tree d)) r"
      using c tc [OF len] by simp
    then show ?thesis
      using m that by (auto simp: entries_def tree_def)
  qed
  show ?thesis
    using gen run absent present by auto
qed

lemma set_fold_insert: "set (fold List.insert xs ys) = set xs \<union> set ys"
  by (induction xs arbitrary: ys) auto

lemma length_fold_insert:
  "distinct xs \<Longrightarrow> set xs \<inter> set ys = {} \<Longrightarrow> length (fold List.insert xs ys) = length xs + length ys"
  by (induction xs arbitrary: ys) auto

lemma length_filter_not_in:
  assumes "distinct xs" "distinct zs" "set zs \<subseteq> set xs"
  shows "length (filter (\<lambda>x. x \<notin> set zs) xs) = length xs - length zs"
proof -
  have "length (filter (\<lambda>x. x \<in> set zs) xs) = card ({x. x \<in> set zs} \<inter> set xs)"
    using assms(1) by (rule distinct_length_filter)
  also have "{x. x \<in> set zs} \<inter> set xs = set zs" using assms(3) by auto
  also have "card (set zs) = length zs" using assms(2) by (rule distinct_card)
  finally have "length (filter (\<lambda>x. x \<in> set zs) xs) = length zs" .
  moreover have "length (filter (\<lambda>x. x \<in> set zs) xs) + length (filter (\<lambda>x. \<not> x \<in> set zs) xs) = length xs"
    by (rule sum_length_filter_compl)
  ultimately show ?thesis by simp
qed

lemma generate_class:
  assumes "well_formed fs" "permutes shuffle" "0 \<le> r" "r \<le> 1"
  shows "\<exists>fs' g'. generate_training_and_testing_datasets shuffle r (fs, g) = Inr (fs', g') \<and>
     (\<forall>d src. map_of (data_dirs fs) d = Some src \<longrightarrow>
        (\<exists>moved. length moved = test_count (length src) r \<and> relocated fs fs' d moved))"
  using generate_effect [of fs shuffle r g] assms
  unfolding well_formed_def permutes_def by blast

lemma class_files:
  assumes "well_formed fs" "map_of (data_dirs fs) d = Some files"
  shows "distinct files" "length files < 2 ^ 53"
proof -
  from assms(2) have "(d, files) \<in> set (data_dirs fs)" by (rule map_of_SomeD)
  with assms(1) show "distinct files" "length files < 2 ^ 53"
    unfolding well_formed_def by auto
qed

lemma fl_7_10: "fl (7 / 10) = 3152519739159347 / 4503599627370496"
  using fl_eval [of "-1" "7 / 10" 53]
  by (simp add: round_half_even_def power_int_def)

lemma fsub_7_10: "fsub 1 (fl (7 / 10)) = 1351079888211149 / 4503599627370496"
  using fl_eval [of "-2" "1351079888211149 / 4503599627370496" 54]
  by (simp add: fsub_def fl_7_10 round_half_even_def power_int_def power_divide)

lemma fl_product_10: "fl (6755399441055745 / 2251799813685248) = 6755399441055745 / 2251799813685248"
  using fl_eval [of 1 "6755399441055745 / 2251799813685248" 51]
  by (simp add: round_half_even_def power_int_def)

lemma fmul_10: "fmul 10 (fsub 1 (fl (7 / 10))) = Float (6755399441055745 / 2251799813685248)"
  by (simp add: fmul_def fsub_7_10 to_double_def fl_product_10)

lemma np_round_10: "np_round (fmul 10 (fsub 1 (fl (7 / 10)))) = Float 3"
  by (simp add: np_round_def fmul_10 round_half_even_def)

lemma test_count_10: "test_count 10 (fl (7 / 10)) = 3"
  by (simp add: test_count_def fl_numeral np_round_10)

lemma np_round_0: "np_round (fmul 0 s) = Float 0"
  by (simp add: np_round_def fmul_def to_double_def)

lemma np_round_2: "np_round (fmul 2 (fsub 1 0)) = Float 2"
  by (simp add: np_round_def fmul_def fsub_def to_double_def fl_numeral)

lemma ratio_7_10: "0 \<le> fl (7 / 10)" "fl (7 / 10) \<le> 1"
  by (simp_all add: fl_7_10)

lemma class_common:
  "transfer_class shuffle_rev ''common'' (Float 3) (fresh_fs, ()) =
     Inr (\<lparr>data_dirs = [(''common'', [''0.png'', ''1.png'', ''2.png'', ''3.png'', ''4.png'',
                                        ''5.png'', ''6.png'']),
                         (''bottlenose'', [])],
           test_dirs = [(''common'', [''7.png'', ''8.png'', ''9.png''])]\<rparr>, ())"
  using transfer_class_effect [where fs = fresh_fs and d = "''common''" and src = ten_files
      and shuffle = shuffle_rev and g = "()" and tc = "Float 3" and c = 3]
  by (simp add: fresh_fs_def ten_files_def shuffle_rev_def entries_def)

lemma class_bottlenose:
  "transfer_class shuffle_rev ''bottlenose'' (Float 0)
     (\<lparr>data_dirs = [(''common'', common_left), (''bottlenose'', [])],
       test_dirs = [(''common'', common_moved)]\<rparr>, ()) =
     Inr (\<lparr>data_dirs = [(''common'', common_left), (''bottlenose'', [])],
           test_dirs = [(''common'', common_moved), (''bottlenose'', [])]\<rparr>, ())"
  by (simp add: transfer_class_def get_files_from_folder_def shuffle_rev_def)

lemma count_fresh: "count_files (data_dirs fresh_fs) [''common'', ''bottlenose''] = Inr [10, 0]"
  by (simp add: fresh_fs_def ten_files_def get_files_from_folder_def fl_numeral)

lemma generate_fresh:
  "generate_training_and_testing_datasets shuffle_rev (fl (7 / 10)) (fresh_fs, ()) =
     Inr (\<lparr>data_dirs = [(''common'', [''0.png'', ''1.png'', ''2.png'', ''3.png'', ''4.png'',
                                        ''5.png'', ''6.png'']),
                         (''bottlenose'', [])],
           test_dirs = [(''common'', [''7.png'', ''8.png'', ''9.png'']), (''bottlenose'', [])]\<rparr>, ())"
proof -
  have "generate_training_and_testing_datasets shuffle_rev (fl (7 / 10)) (fresh_fs, ()) =
      transfer_files shuffle_rev [(''common'', Float 3), (''bottlenose'', Float 0)] (fresh_fs, ())"
    using count_fresh
    by (simp add: generate_training_and_testing_datasets_def fresh_fs_def np_round_10 np_round_0)
  then show ?thesis
    by (simp add: class_common class_bottlenose)
qed

lemma class_rerun:
  "transfer_class shuffle_keep ''common'' (Float 2) (rerun_fs, ()) =
     Inr (\<lparr>data_dirs = [(''common'', [])],
           test_dirs = [(''common'', [''1.png'', ''0.png'', ''9.png''])]\<rparr>, ())"
  using transfer_class_effect [where fs = rerun_fs and d = "''common''"
      and src = "[''0.png'', ''1.png'']" and shuffle = shuffle_keep and g = "()"
      and tc = "Float 2" and c = 2]
  by (simp add: rerun_fs_def shuffle_keep_def entries_def)

lemma generate_rerun:
  "generate_training_and_testing_datasets shuffle_keep 0 (rerun_fs, ()) =
     Inr (\<lparr>data_dirs = [(''common'', [])],
           test_dirs = [(''common'', [''1.png'', ''0.png'', ''9.png''])]\<rparr>, ())"
proof -
  have "count_files (data_dirs rerun_fs) [''common''] = Inr [2]"
    by (simp add: rerun_fs_def get_files_from_folder_def fl_numeral)
  then have "generate_training_and_testing_datasets shuffle_keep 0 (rerun_fs, ()) =
      transfer_files shuffle_keep [(''common'', Float 2)] (rerun_fs, ())"
    by (simp add: generate_training_and_testing_datasets_def rerun_fs_def np_round_2)
  then show ?thesis
    by (simp add: class_rerun)
qed

text \<open>
  The ratio 0.65: the difference \<open>1 - 0.65\<close> is a double a little below 0.35, its product
  with 10 lies halfway between two doubles and is rounded up to 3.5, and \<^verbatim>\<open>np.round\<close>
  makes 4 of it.
\<close>

lemma fl_13_20: "fl (13 / 20) = 5854679515581645 / 9007199254740992"
  using fl_eval [of "-1" "13 / 20" 53]
  by (simp add: round_half_even_def power_int_def)

lemma fsub_13_20:
  "fsub 1 (5854679515581645 / 9007199254740992) = 3152519739159347 / 9007199254740992"
  using fl_eval [of "-2" "3152519739159347 / 9007199254740992" 54]
  by (simp add: fsub_def round_half_even_def power_int_def power_divide)

lemma fl_product_13_20: "fl (15762598695796735 / 4503599627370496) = 7 / 2"
  using fl_eval [of 1 "15762598695796735 / 4503599627370496" 51]
  by (simp add: round_half_even_def power_int_def)

lemma np_round_13_20:
  "np_round (fmul 10 (fsub 1 (5854679515581645 / 9007199254740992))) = Float 4"
  by (simp add: np_round_def fmul_def fsub_13_20 to_double_def fl_product_13_20
      round_half_even_def)

lemma test_count_13_20: "test_count 10 (5854679515581645 / 9007199254740992) = 4"
  by (simp add: test_count_def fl_numeral np_round_13_20)

lemma class_common_4:
  "transfer_class shuffle_rev ''common'' (Float 4) (fresh_fs, ()) =
     Inr (\<lparr>data_dirs = [(''common'', [''0.png'', ''1.png'', ''2.png'', ''3.png'', ''4.png'',
                                        ''5.png'']),
                         (''bottlenose'', [])],
           test_dirs = [(''common'', [''6.png'', ''7.png'', ''8.png'', ''9.png''])]\<rparr>, ())"
  using transfer_class_effect [where fs = fresh_fs and d = "''common''" and src = ten_files
      and shuffle = shuffle_rev and g = "()" and tc = "Float 4" and c = 4]
  by (simp add: fresh_fs_def ten_files_def shuffle_rev_def entries_def)

lemma generate_13_20:
  "generate_training_and_testing_datasets shuffle_rev (5854679515581645 / 9007199254740992)
     (fresh_fs, ()) =
     Inr (\<lparr>data_dirs = [(''common'', [''0.png'', ''1.png'', ''2.png'', ''3.png'', ''4.png'',
                                        ''5.png'']),
                         (''bottlenose'', [])],
           test_dirs = [(''common'', [''6.png'', ''7.png'', ''8.png'', ''9.png'']),
                        (''bottlenose'', [])]\<rparr>, ())"
proof -
  have "generate_training_and_testing_datasets shuffle_rev (5854679515581645 / 9007199254740992)
      (fresh_fs, ()) =
      transfer_files shuffle_rev [(''common'', Float 4), (''bottlenose'', Float 0)] (fresh_fs, ())"
    using count_fresh
    by (simp add: generate_training_and_testing_datasets_def fresh_fs_def np_round_13_20
        np_round_0)
  then show ?thesis
    by (simp add: class_common_4 class_bottlenose)
qed

text \<open>
  Fifteen files with the ratios 0.7 and 0.3: read as decimal fractions, the products
  \<open>15 * 0.3\<close> and \<open>15 * 0.7\<close> are the ties 4.5 and 10.5; in doubles the first becomes a
  little more than 4.5 and the second exactly 10.5.
\<close>

lemma fl_product_15_7_10:
  "fl (20266198323167235 / 4503599627370496) = 5066549580791809 / 1125899906842624"
  using fl_eval [of 2 "20266198323167235 / 4503599627370496" 50]
  by (simp add: round_half_even_def power_int_def)

lemma test_count_15_7_10: "test_count 15 (fl (7 / 10)) = 5"
  by (simp add: test_count_def fl_numeral np_round_def fmul_def fsub_7_10 to_double_def
      fl_product_15_7_10 round_half_even_def)

lemma fl_3_10: "fl (3 / 10) = 5404319552844595 / 18014398509481984"
  using fl_eval [of "-2" "3 / 10" 54]
  by (simp add: round_half_even_def power_int_def power_divide)

lemma fsub_3_10: "fsub 1 (fl (3 / 10)) = 3152519739159347 / 4503599627370496"
  using fl_eval [of "-1" "12610078956637389 / 18014398509481984" 53]
  by (simp add: fsub_def fl_3_10 round_half_even_def power_int_def)

lemma fl_product_15_3_10: "fl (47287796087390205 / 4503599627370496) = 21 / 2"
  using fl_eval [of 3 "47287796087390205 / 4503599627370496" 49]
  by (simp add: round_half_even_def power_int_def)

lemma test_count_15_3_10: "test_count 15 (fl (3 / 10)) = 10"
  by (simp add: test_count_def fl_numeral np_round_def fmul_def fsub_3_10 to_double_def
      fl_product_15_3_10 round_half_even_def)

lemma well_formed_fresh: "well_formed fresh_fs"
  by (simp add: well_formed_def fresh_fs_def ten_files_def)

lemma permutes_rev: "permutes shuffle_rev"
  by (simp add: permutes_def shuffle_rev_def)

lemma move_files_no_index_error:
  "\<forall>j\<in>set js. j < length files \<Longrightarrow> move_files d files js fs \<noteq> Inl IndexError"
proof (induction js arbitrary: fs)
  case Nil
  then show ?case by simp
next
  case (Cons j js)
  have "shutil_move d (files ! j) fs \<noteq> Inl IndexError"
    by (simp add: shutil_move_def split: option.splits)
  with Cons show ?case
    by (auto split: sum.splits)
qed

text \<open>
  Claim C2, amended. For every ratio \<open>r\<close> between 0 and 1 and every class directory with \<open>N\<close>
  files, the split ends normally and moves \<^verbatim>\<open>np.round\<close> of the product \<open>N * (1 - r)\<close> as
  Python computes it in doubles: the difference rounded to a double, its product with \<open>N\<close>
  rounded to a double, and that rounded to the nearest integer, ties to even. The moved
  files are that many different files of the class, they are in the test directory
  afterwards, and \<open>N\<close> minus that many remain. The count is within \<open>1/2 + N / 2 ^ 52\<close> of the
  exact product, and whenever the exact product is farther than \<open>N / 2 ^ 52\<close> from every
  half-integer, the count is the exact product rounded to the nearest integer, under both
  rules for ties. For ten files and the ratio 0.7 three files are moved and seven remain.
\<close>

theorem split_moves_test_count:
  assumes "well_formed fs" "permutes shuffle" "0 \<le> r" "r \<le> 1"
    and "map_of (data_dirs fs) d = Some files"
  shows "\<exists>fs' g' moved.
     generate_training_and_testing_datasets shuffle r (fs, g) = Inr (fs', g') \<and>
     distinct moved \<and> set moved \<subseteq> set files \<and>
     length moved = test_count (length files) r \<and>
     int (test_count (length files) r) =
       round_half_even (fl (real (length files) * fl (1 - r))) \<and>
     \<bar>real (test_count (length files) r) - real (length files) * (1 - r)\<bar>
       \<le> 1 / 2 + real (length files) / 2 ^ 52 \<and>
     ((\<forall>k::int. real (length files) / 2 ^ 52
          < \<bar>real (length files) * (1 - r) - (of_int k + 1 / 2)\<bar>) \<longrightarrow>
        int (test_count (length files) r) = round_half_even (real (length files) * (1 - r)) \<and>
        int (test_count (length files) r) = round_half_away (real (length files) * (1 - r))) \<and>
     entries (data_dirs fs') d = filter (\<lambda>x. x \<notin> set moved) files \<and>
     length (entries (data_dirs fs') d) = length files - test_count (length files) r \<and>
     set (entries (test_dirs fs') d) = set (entries (test_dirs fs) d) \<union> set moved"
proof -
  note cf = class_files [OF assms(1,5)]
  from generate_class [OF assms(1-4), of g] assms(5)
  obtain fs' g' moved where run: "generate_training_and_testing_datasets shuffle r (fs, g) = Inr (fs', g')"
    and len: "length moved = test_count (length files) r"
    and rel: "relocated fs fs' d moved"
    by blast
  from rel assms(5) have dm: "distinct moved" and sm: "set moved \<subseteq> set files"
    and data': "entries (data_dirs fs') d = filter (\<lambda>x. x \<notin> set moved) files"
    and test': "entries (test_dirs fs') d = fold List.insert moved (entries (test_dirs fs) d)"
    by (simp_all add: relocated_def entries_def)
  have tc: "int (test_count (length files) r) =
      round_half_even (fl (real (length files) * fl (1 - r)))"
    using cf(2) assms(3,4) by (rule test_counter_entry(2))
  have near: "\<bar>real (test_count (length files) r) - real (length files) * (1 - r)\<bar>
       \<le> 1 / 2 + real (length files) / 2 ^ 52"
    using cf(2) assms(3,4) by (rule test_count_near)
  have exact: "int (test_count (length files) r) = round_half_even (real (length files) * (1 - r)) \<and>
        int (test_count (length files) r) = round_half_away (real (length files) * (1 - r))"
    if far: "\<forall>k::int. real (length files) / 2 ^ 52
          < \<bar>real (length files) * (1 - r) - (of_int k + 1 / 2)\<bar>"
  proof -
    have x0: "0 \<le> real (length files) * (1 - r)"
      using assms(4) by simp
    from rounding_agrees [OF product_error [OF cf(2) assms(3,4)] x0 far]
    show ?thesis
      unfolding tc by simp
  qed
  have remain: "length (entries (data_dirs fs') d) = length files - test_count (length files) r"
    unfolding data' len [symmetric] using cf(1) dm sm by (rule length_filter_not_in)
  have arrived: "set (entries (test_dirs fs') d) = set (entries (test_dirs fs) d) \<union> set moved"
    unfolding test' by (auto simp: set_fold_insert)
  show ?thesis
    using run dm sm len tc near exact data' remain arrived by blast
qed

lemma far_from_ties_10:
  "\<forall>k::int. real 10 / 2 ^ 52 < \<bar>real 10 * (1 - fl (7 / 10)) - (of_int k + 1 / 2)\<bar>"
proof
  fix k :: int
  have p: "real 10 * (1 - fl (7 / 10)) = 6755399441055745 / 2251799813685248"
    by (simp add: fl_7_10)
  have e: "real 10 / 2 ^ 52 < 1 / 4" by simp
  have lo: "(11 :: real) / 4 < 6755399441055745 / 2251799813685248" by simp
  have hi: "(6755399441055745 :: real) / 2251799813685248 < 13 / 4" by simp
  consider "k \<le> 2" | "3 \<le> k" by linarith
  then show "real 10 / 2 ^ 52 < \<bar>real 10 * (1 - fl (7 / 10)) - (of_int k + 1 / 2)\<bar>"
  proof cases
    case 1
    then have "real_of_int k \<le> 2" by simp
    with e lo show ?thesis unfolding p by linarith
  next
    case 2
    then have "3 \<le> real_of_int k" by simp
    with e hi show ?thesis unfolding p by linarith
  qed
qed

theorem split_moves_test_count_witness:
  "well_formed fresh_fs \<and> permutes shuffle_rev \<and> 0 \<le> fl (7 / 10) \<and> fl (7 / 10) \<le> 1 \<and>
   map_of (data_dirs fresh_fs) ''common'' = Some ten_files \<and> length ten_files = 10 \<and>
   test_count 10 (fl (7 / 10)) = 3 \<and>
   round_half_even (fl (real 10 * fl (1 - fl (7 / 10)))) = 3 \<and>
   (\<forall>k::int. real 10 / 2 ^ 52 < \<bar>real 10 * (1 - fl (7 / 10)) - (of_int k + 1 / 2)\<bar>) \<and>
   round_half_even (real 10 * (1 - fl (7 / 10))) = 3 \<and>
   round_half_away (real 10 * (1 - fl (7 / 10))) = 3 \<and>
   (\<exists>fs'. generate_training_and_testing_datasets shuffle_rev (fl (7 / 10)) (fresh_fs, ()) = Inr (fs', ()) \<and>
      entries (test_dirs fs') ''common'' = [''7.png'', ''8.png'', ''9.png''] \<and>
      length (entries (data_dirs fs') ''common'') = 7)"
proof -
  have len: "length ten_files = 10" by (simp add: ten_files_def)
  have m: "map_of (data_dirs fresh_fs) ''common'' = Some ten_files" by (simp add: fresh_fs_def)
  from split_moves_test_count [OF well_formed_fresh permutes_rev ratio_7_10 m, of "()"]
  obtain fs' g' moved where
    run: "generate_training_and_testing_datasets shuffle_rev (fl (7 / 10)) (fresh_fs, ()) = Inr (fs', g')"
    and tc: "int (test_count 10 (fl (7 / 10))) = round_half_even (fl (real 10 * fl (1 - fl (7 / 10))))"
    and ex: "(\<forall>k::int. real 10 / 2 ^ 52 < \<bar>real 10 * (1 - fl (7 / 10)) - (of_int k + 1 / 2)\<bar>) \<longrightarrow>
        int (test_count 10 (fl (7 / 10))) = round_half_even (real 10 * (1 - fl (7 / 10))) \<and>
        int (test_count 10 (fl (7 / 10))) = round_half_away (real 10 * (1 - fl (7 / 10)))"
    and left: "length (entries (data_dirs fs') ''common'') = 10 - test_count 10 (fl (7 / 10))"
    unfolding len by blast
  have a: "round_half_even (fl (real 10 * fl (1 - fl (7 / 10)))) = 3"
    using tc by (simp add: test_count_10)
  have b: "round_half_even (real 10 * (1 - fl (7 / 10))) = 3"
    "round_half_away (real 10 * (1 - fl (7 / 10))) = 3"
    using ex far_from_ties_10 by (simp_all add: test_count_10)
  have c: "\<exists>fs'. generate_training_and_testing_datasets shuffle_rev (fl (7 / 10)) (fresh_fs, ()) = Inr (fs', ()) \<and>
      entries (test_dirs fs') ''common'' = [''7.png'', ''8.png'', ''9.png''] \<and>
      length (entries (data_dirs fs') ''common'') = 7"
    using run left by (auto simp: generate_fresh test_count_10 entries_def)
  show ?thesis
    using a b c far_from_ties_10 len m
    by (simp only: well_formed_fresh permutes_rev ratio_7_10 test_count_10 simp_thms)
qed

text \<open>
  Claim C2 as stated fails: the count is not the exact product rounded. The ratio 0.65 is
  the double \<open>5854679515581645 / 2 ^ 53\<close>. With it and ten files the exact product is below
  3.5 and rounds to 3 under both rules, and the split moves 4 files. And with the ratios
  read as the decimal fractions 0.7 and 0.3, fifteen files give the ties 4.5 and 10.5: the
  split moves 5 and 10 files, which is ties to even for neither the first (4) and ties away
  from zero for neither the second (11), so no one rule explains both.
\<close>

theorem split_moves_test_count_counterexample:
  "fl (13 / 20) = 5854679515581645 / 9007199254740992 \<and>
   real 10 * (1 - 5854679515581645 / 9007199254740992) < 7 / 2 \<and>
   round_half_even (real 10 * (1 - 5854679515581645 / 9007199254740992)) = 3 \<and>
   round_half_away (real 10 * (1 - 5854679515581645 / 9007199254740992)) = 3 \<and>
   test_count 10 (5854679515581645 / 9007199254740992) = 4 \<and>
   (\<exists>fs'. generate_training_and_testing_datasets shuffle_rev
             (5854679515581645 / 9007199254740992) (fresh_fs, ()) = Inr (fs', ()) \<and>
      entries (test_dirs fs') ''common'' = [''6.png'', ''7.png'', ''8.png'', ''9.png''] \<and>
      length (entries (data_dirs fs') ''common'') = 6) \<and>
   round_half_even (real 15 * (1 - 7 / 10)) = 4 \<and> test_count 15 (fl (7 / 10)) = 5 \<and>
   round_half_away (real 15 * (1 - 3 / 10)) = 11 \<and> test_count 15 (fl (3 / 10)) = 10"
  by (simp add: fl_13_20 test_count_13_20 generate_13_20 test_count_15_7_10 test_count_15_3_10
      entries_def round_half_even_def round_half_away_def)

lemma well_formed_rerun: "well_formed rerun_fs"
  by (simp add: well_formed_def rerun_fs_def)

lemma permutes_keep: "permutes shuffle_keep"
  by (simp add: permutes_def shuffle_keep_def)

text \<open>
  Claim C3, amended. Every relocated file is in the test directory of its class afterwards
  and no longer in the data directory, and the files that remain together with the relocated
  ones are the files the class had. When no relocated file has the name of an entry that the
  test directory already had, the number of files in both directories together is what it
  was before; when the test directory was absent or empty, it is \<open>N\<close>.
\<close>

theorem split_relocates:
  assumes "well_formed fs" "permutes shuffle" "0 \<le> r" "r \<le> 1"
    and "map_of (data_dirs fs) d = Some files"
  shows "\<exists>fs' g' moved.
     generate_training_and_testing_datasets shuffle r (fs, g) = Inr (fs', g') \<and>
     length moved = test_count (length files) r \<and>
     set moved \<subseteq> set (entries (test_dirs fs') d) \<and>
     set moved \<inter> set (entries (data_dirs fs') d) = {} \<and>
     set (entries (data_dirs fs') d) \<union> set moved = set files \<and>
     (set moved \<inter> set (entries (test_dirs fs) d) = {} \<longrightarrow>
        length (entries (data_dirs fs') d) + length (entries (test_dirs fs') d) =
        length files + length (entries (test_dirs fs) d)) \<and>
     (entries (test_dirs fs) d = [] \<longrightarrow>
        length (entries (data_dirs fs') d) + length (entries (test_dirs fs') d) = length files)"
proof -
  note cf = class_files [OF assms(1,5)]
  from generate_class [OF assms(1-4), of g] assms(5)
  obtain fs' g' moved where run: "generate_training_and_testing_datasets shuffle r (fs, g) = Inr (fs', g')"
    and len: "length moved = test_count (length files) r"
    and rel: "relocated fs fs' d moved"
    by blast
  from rel assms(5) have dm: "distinct moved" and sm: "set moved \<subseteq> set files"
    and data': "entries (data_dirs fs') d = filter (\<lambda>x. x \<notin> set moved) files"
    and test': "entries (test_dirs fs') d = fold List.insert moved (entries (test_dirs fs) d)"
    by (simp_all add: relocated_def entries_def)
  have there: "set moved \<subseteq> set (entries (test_dirs fs') d)"
    unfolding test' by (auto simp: set_fold_insert)
  have gone: "set moved \<inter> set (entries (data_dirs fs') d) = {}"
    unfolding data' by auto
  have all: "set (entries (data_dirs fs') d) \<union> set moved = set files"
    unfolding data' using sm by auto
  have remain: "length (entries (data_dirs fs') d) = length files - length moved"
    unfolding data' using cf(1) dm sm by (rule length_filter_not_in)
  have le: "length moved \<le> length files"
    using dm sm cf(1) by (metis card_mono distinct_card List.finite_set)
  have total: "length (entries (data_dirs fs') d) + length (entries (test_dirs fs') d) =
        length files + length (entries (test_dirs fs) d)"
    if "set moved \<inter> set (entries (test_dirs fs) d) = {}"
    unfolding test' remain using length_fold_insert [OF dm that] le by simp
  have total0: "length (entries (data_dirs fs') d) + length (entries (test_dirs fs') d) = length files"
    if "entries (test_dirs fs) d = []"
    using total that by simp
  show ?thesis
    using run len there gone all total total0 by blast
qed

theorem split_relocates_witness:
  "well_formed fresh_fs \<and> permutes shuffle_rev \<and> 0 \<le> fl (7 / 10) \<and> fl (7 / 10) \<le> 1 \<and>
   map_of (data_dirs fresh_fs) ''common'' = Some ten_files \<and> length ten_files = 10 \<and>
   entries (test_dirs fresh_fs) ''common'' = [] \<and>
   (\<exists>fs'. generate_training_and_testing_datasets shuffle_rev (fl (7 / 10)) (fresh_fs, ()) = Inr (fs', ()) \<and>
      length (entries (data_dirs fs') ''common'') + length (entries (test_dirs fs') ''common'') = 10)"
  using split_relocates [OF well_formed_fresh permutes_rev ratio_7_10,
      of "''common''" ten_files "()"]
  by (simp add: well_formed_fresh permutes_rev ratio_7_10 generate_fresh entries_def)
    (simp add: fresh_fs_def ten_files_def)

text \<open>
  Claim C3 as stated fails when the test directory already holds a file under the name of a
  relocated one: \<^verbatim>\<open>shutil.move\<close> replaces it. A class of two files whose test directory
  holds two files, one of them under a name of the class, has four files before the split
  with the ratio 0 and three after it.
\<close>

theorem split_loses_file_counterexample:
  "length (entries (data_dirs rerun_fs) ''common'') = 2 \<and>
   length (entries (data_dirs rerun_fs) ''common'') +
     length (entries (test_dirs rerun_fs) ''common'') = 4 \<and>
   (\<exists>fs'. generate_training_and_testing_datasets shuffle_keep 0 (rerun_fs, ()) = Inr (fs', ()) \<and>
      entries (data_dirs fs') ''common'' = [] \<and>
      entries (test_dirs fs') ''common'' = [''1.png'', ''0.png'', ''9.png''] \<and>
      length (entries (data_dirs fs') ''common'') +
        length (entries (test_dirs fs') ''common'') = 3)"
  by (simp add: generate_rerun entries_def) (simp add: rerun_fs_def)

text \<open>
  Claim C8, amended. For a class whose data directory is empty the split moves nothing: the
  data directory stays empty, and the test directory of the class holds afterwards what it
  held before. It exists afterwards, so it has been created, empty, when it did not exist.
\<close>

theorem split_empty_class:
  assumes "well_formed fs" "permutes shuffle" "0 \<le> r" "r \<le> 1"
    and "map_of (data_dirs fs) d = Some []"
  shows "\<exists>fs' g'.
     generate_training_and_testing_datasets shuffle r (fs, g) = Inr (fs', g') \<and>
     map_of (data_dirs fs') d = Some [] \<and>
     map_of (test_dirs fs') d = Some (entries (test_dirs fs) d)"
proof -
  from generate_class [OF assms(1-4), of g] assms(5)
  obtain fs' g' moved where run: "generate_training_and_testing_datasets shuffle r (fs, g) = Inr (fs', g')"
    and len: "length moved = test_count (length ([] :: string list)) r"
    and rel: "relocated fs fs' d moved"
    by blast
  have "test_count 0 r \<le> 0"
    using assms(3,4) by (intro test_count_le) simp_all
  with len have "moved = []" by simp
  with rel assms(5) have "map_of (data_dirs fs') d = Some []"
    "map_of (test_dirs fs') d = Some (entries (test_dirs fs) d)"
    by (simp_all add: relocated_def entries_def)
  with run show ?thesis by blast
qed

theorem split_empty_class_witness:
  "well_formed fresh_fs \<and> permutes shuffle_rev \<and> 0 \<le> fl (7 / 10) \<and> fl (7 / 10) \<le> 1 \<and>
   map_of (data_dirs fresh_fs) ''bottlenose'' = Some [] \<and>
   (\<exists>fs'. generate_training_and_testing_datasets shuffle_rev (fl (7 / 10)) (fresh_fs, ()) = Inr (fs', ()) \<and>
      map_of (data_dirs fs') ''bottlenose'' = Some [] \<and>
      map_of (test_dirs fs') ''bottlenose'' = Some [])"
  using split_empty_class [OF well_formed_fresh permutes_rev ratio_7_10,
      of "''bottlenose''" "()"]
  by (simp add: well_formed_fresh permutes_rev ratio_7_10 generate_fresh)
    (simp add: fresh_fs_def)

text \<open>
  Claim C8 as stated fails: the state of the class changes when its test directory does not
  exist, because the loop creates the directory before it looks at the files.
\<close>

theorem split_empty_class_counterexample:
  "map_of (data_dirs fresh_fs) ''bottlenose'' = Some [] \<and>
   map_of (test_dirs fresh_fs) ''bottlenose'' = None \<and>
   (\<exists>fs'. generate_training_and_testing_datasets shuffle_rev (fl (7 / 10)) (fresh_fs, ()) = Inr (fs', ()) \<and>
      map_of (test_dirs fs') ''bottlenose'' = Some [])"
  by (simp add: generate_fresh) (simp add: fresh_fs_def)

text \<open>
  Claim C10. For every ratio between 0 and 1 the test count of a class of \<open>N\<close> files is at
  most \<open>N\<close>, so the loop that moves the files never reads the shuffled array of \<open>N\<close> names
  beyond its end, and the whole split ends without an exception.
\<close>

theorem test_count_within_bounds:
  assumes "well_formed fs" "permutes shuffle" "0 \<le> r" "r \<le> 1"
    and "map_of (data_dirs fs) d = Some files"
  shows "test_count (length files) r \<le> length files \<and>
     (\<forall>shuffled fs0. length shuffled = length files \<longrightarrow>
        move_files d shuffled [0..<test_count (length files) r] fs0 \<noteq> Inl IndexError) \<and>
     (\<exists>s'. generate_training_and_testing_datasets shuffle r (fs, g) = Inr s')"
proof -
  note cf = class_files [OF assms(1,5)]
  have le: "test_count (length files) r \<le> length files"
    using cf(2) assms(3,4) by (rule test_count_le)
  have "move_files d shuffled [0..<test_count (length files) r] fs0 \<noteq> Inl IndexError"
    if "length shuffled = length files" for shuffled fs0
    using le that by (intro move_files_no_index_error) simp
  moreover have "\<exists>s'. generate_training_and_testing_datasets shuffle r (fs, g) = Inr s'"
    using generate_class [OF assms(1-4), of g] by blast
  ultimately show ?thesis
    using le by blast
qed

theorem test_count_within_bounds_witness:
  "well_formed fresh_fs \<and> permutes shuffle_rev \<and> 0 \<le> fl (7 / 10) \<and> fl (7 / 10) \<le> 1 \<and>
   map_of (data_dirs fresh_fs) ''common'' = Some ten_files \<and> length ten_files = 10 \<and>
   test_count 10 (fl (7 / 10)) \<le> 10 \<and>
   move_files ''common'' (rev ten_files) [0..<test_count 10 (fl (7 / 10))] fresh_fs \<noteq> Inl IndexError \<and>
   \<not> isl (generate_training_and_testing_datasets shuffle_rev (fl (7 / 10)) (fresh_fs, ()))"
proof -
  have len: "length ten_files = 10" by (simp add: ten_files_def)
  have m: "map_of (data_dirs fresh_fs) ''common'' = Some ten_files" by (simp add: fresh_fs_def)
  note t = test_count_within_bounds [OF well_formed_fresh permutes_rev ratio_7_10 m, of "()"]
  have a: "test_count 10 (fl (7 / 10)) \<le> 10"
    using t unfolding len by blast
  have "\<forall>shuffled fs0. length shuffled = 10 \<longrightarrow>
      move_files ''common'' shuffled [0..<test_count 10 (fl (7 / 10))] fs0 \<noteq> Inl IndexError"
    using t unfolding len by blast
  then have b: "move_files ''common'' (rev ten_files) [0..<test_count 10 (fl (7 / 10))] fresh_fs
      \<noteq> Inl IndexError"
    by (simp add: len)
  have c: "\<not> isl (generate_training_and_testing_datasets shuffle_rev (fl (7 / 10)) (fresh_fs, ()))"
    using t by auto
  show ?thesis
    using a b c len m by (simp add: well_formed_fresh permutes_rev ratio_7_10)
qed

end
